theory Spec2Isabelle
  imports Complex_Main "HOL-Library.Monad_Syntax"
begin

section \<open>Numbers and vectors\<close>

text \<open>
  The program computes on C++ \<^verbatim>\<open>double\<close> and \<^verbatim>\<open>int\<close>. For the filters and the spur
  removal a double is modelled as either not-a-number or a finite value, the finite values
  being the real numbers: rounding, overflow and the two infinities are not modelled there.
  The guard of \<^verbatim>\<open>linearInterpolate\<close> and the spot noise depend on the rounding, and are
  modelled on the binary64 values of the next section. Arithmetic on a not-a-number gives a
  not-a-number and every comparison with it is false, as in IEEE 754. A division of a finite
  value by zero (an infinity or a not-a-number in IEEE 754) is outside the finite values and
  is mapped to \<open>NaN\<close>; the guards of the program keep every division away from it.
  An \<^verbatim>\<open>int\<close> is modelled as \<open>int\<close>: an even window is below the largest \<^verbatim>\<open>int\<close>, so
  \<^verbatim>\<open>windowSize++\<close> does not overflow, and the index sums stay inside 32 bits for every
  vector of fewer than \<open>2\<^sup>3\<^sup>0\<close> samples.
\<close>

datatype double = NaN | Fin real

fun isnan :: "double \<Rightarrow> bool" where
  "isnan NaN = True"
| "isnan (Fin a) = False"

fun dadd :: "double \<Rightarrow> double \<Rightarrow> double" where
  "dadd (Fin a) (Fin b) = Fin (a + b)"
| "dadd NaN b = NaN"
| "dadd (Fin a) NaN = NaN"

fun dsub :: "double \<Rightarrow> double \<Rightarrow> double" where
  "dsub (Fin a) (Fin b) = Fin (a - b)"
| "dsub NaN b = NaN"
| "dsub (Fin a) NaN = NaN"

fun dmul :: "double \<Rightarrow> double \<Rightarrow> double" where
  "dmul (Fin a) (Fin b) = Fin (a * b)"
| "dmul NaN b = NaN"
| "dmul (Fin a) NaN = NaN"

fun ddiv :: "double \<Rightarrow> double \<Rightarrow> double" where
  "ddiv (Fin a) (Fin b) = (if b = 0 then NaN else Fin (a / b))"
| "ddiv NaN b = NaN"
| "ddiv (Fin a) NaN = NaN"

fun dlt :: "double \<Rightarrow> double \<Rightarrow> bool" where
  "dlt (Fin a) (Fin b) = (a < b)"
| "dlt NaN b = False"
| "dlt (Fin a) NaN = False"

definition dgt :: "double \<Rightarrow> double \<Rightarrow> bool" where
  "dgt a b = dlt b a"

fun dle :: "double \<Rightarrow> double \<Rightarrow> bool" where
  "dle (Fin a) (Fin b) = (a \<le> b)"
| "dle NaN b = False"
| "dle (Fin a) NaN = False"

fun qFabs :: "double \<Rightarrow> double" where
  "qFabs (Fin a) = Fin \<bar>a\<bar>"
| "qFabs NaN = NaN"

text \<open>\<^verbatim>\<open>std::numeric_limits<double>::epsilon()\<close>.\<close>

definition DBL_EPSILON :: double where
  "DBL_EPSILON = Fin (1 / 2 ^ 52)"

text \<open>
  \<^verbatim>\<open>QVector::operator[]\<close> and \<^verbatim>\<open>std::vector::operator[]\<close> have undefined behaviour
  outside the vector. The model makes every access a checked one: \<open>None\<close> stands for an
  access out of range, and a function that returns \<open>Some\<close> has made none.
\<close>

definition vec_at :: "'a list \<Rightarrow> int \<Rightarrow> 'a option" where
  "vec_at xs i = (if 0 \<le> i \<and> i < int (length xs) then Some (xs ! nat i) else None)"

definition vec_set :: "'a list \<Rightarrow> int \<Rightarrow> 'a \<Rightarrow> 'a list option" where
  "vec_set xs i v = (if 0 \<le> i \<and> i < int (length xs) then Some (xs[nat i := v]) else None)"

text \<open>
  The loop \<^verbatim>\<open>for (i ...) out[i] = f(i);\<close> over the indices \<open>is\<close>, in their order.
\<close>

fun assign_loop :: "(int \<Rightarrow> 'a option) \<Rightarrow> int list \<Rightarrow> 'a list \<Rightarrow> 'a list option" where
  "assign_loop f [] out = Some out"
| "assign_loop f (i # is) out =
     do { v \<leftarrow> f i; out' \<leftarrow> vec_set out i v; assign_loop f is out' }"

text \<open>
  \<^verbatim>\<open>std::sort\<close> with \<^verbatim>\<open>operator<\<close> on doubles, as an insertion sort. On a window without
  not-a-number the result is the ascending arrangement of the window (\<open>std_sort_sorted\<close>
  below); with a not-a-number the order that the C++ library returns is unspecified,
  and the model fixes one.
\<close>

fun std_insert :: "double \<Rightarrow> double list \<Rightarrow> double list" where
  "std_insert x [] = [x]"
| "std_insert x (y # ys) = (if dlt x y then x # y # ys else y # std_insert x ys)"

fun std_sort :: "double list \<Rightarrow> double list" where
  "std_sort [] = []"
| "std_sort (x # xs) = std_insert x (std_sort xs)"

section \<open>IEEE binary64 arithmetic\<close>

text \<open>The nearest integer, a tie going to the even one.\<close>

definition round_half_even :: "real \<Rightarrow> int" where
  "round_half_even r =
     (let f = \<lfloor>r\<rfloor>; d = r - of_int f
      in if d < 1 / 2 then f else if d > 1 / 2 then f + 1 else if f mod 2 = 0 then f else f + 1)"

text \<open>
  A binary64 value is a not-a-number, an infinity, or a finite value \<open>Num x\<close>, written as
  the real number \<open>x\<close> that it stands for. The doubles are the values that the rounding
  \<open>b64_round\<close> leaves as they are, and the arithmetic rounds its exact result. The two
  zeros are one value: the sign of a zero shows only in a division by it, which the
  functions modelled on these values do not make.
\<close>

datatype binary64 = QNaN | PInf | NInf | Num real

text \<open>\<open>pow2 n\<close> is \<open>2\<^sup>n\<close> for an integer \<open>n\<close>.\<close>

definition pow2 :: "int \<Rightarrow> real" where
  "pow2 n = (if n \<ge> 0 then 2 ^ nat n else 1 / 2 ^ nat (- n))"

text \<open>The measure of the recursion of \<open>ilog2\<close>.\<close>

definition ilog2_steps :: "real \<Rightarrow> int" where
  "ilog2_steps a = 2 * \<lceil>1 / a\<rceil> + \<lceil>a\<rceil>"

lemma ilog2_steps_half:
  assumes "2 \<le> a"
  shows "ilog2_steps (a / 2) < ilog2_steps a" and "0 < ilog2_steps a"
proof -
  have "a / 2 \<le> a - 1" using assms by simp
  then have "\<lceil>a / 2\<rceil> \<le> \<lceil>a - 1\<rceil>" by (rule ceiling_mono)
  then have 1: "\<lceil>a / 2\<rceil> \<le> \<lceil>a\<rceil> - 1" by simp
  have 2: "\<lceil>1 / (a / 2)\<rceil> = 1" "\<lceil>1 / a\<rceil> = 1"
    using assms by (auto simp: ceiling_eq_iff field_simps)
  have 3: "2 \<le> \<lceil>a\<rceil>" using assms by (simp add: le_ceiling_iff)
  from 1 2 show "ilog2_steps (a / 2) < ilog2_steps a" unfolding ilog2_steps_def by linarith
  from 2 3 show "0 < ilog2_steps a" unfolding ilog2_steps_def by linarith
qed

lemma ilog2_steps_double:
  assumes "0 < a" "a < 1"
  shows "ilog2_steps (a * 2) < ilog2_steps a" and "0 < ilog2_steps a"
proof -
  have 1: "\<lceil>a * 2\<rceil> \<le> 2" "\<lceil>a\<rceil> = 1"
    using assms by (auto simp: ceiling_le_iff ceiling_eq_iff)
  have "1 < 1 / a" using assms by (simp add: field_simps)
  then have n: "2 \<le> \<lceil>1 / a\<rceil>" by (simp add: le_ceiling_iff)
  have "1 / (a * 2) = (1 / a) / 2" by simp
  also have "\<dots> \<le> of_int \<lceil>1 / a\<rceil> / 2" by (intro divide_right_mono le_of_int_ceiling) simp
  also have "\<dots> \<le> of_int (\<lceil>1 / a\<rceil> - 1)" using n by simp
  finally have "\<lceil>1 / (a * 2)\<rceil> \<le> \<lceil>1 / a\<rceil> - 1" by (rule ceiling_le)
  with n have 2: "\<lceil>1 / (a * 2)\<rceil> \<le> \<lceil>1 / a\<rceil> - 1" "2 \<le> \<lceil>1 / a\<rceil>" by simp_all
  from 1 2 show "ilog2_steps (a * 2) < ilog2_steps a" unfolding ilog2_steps_def by linarith
  from 1 2 show "0 < ilog2_steps a" unfolding ilog2_steps_def by linarith
qed

text \<open>The binary exponent of a positive real \<open>a\<close>: the \<open>e\<close> with \<open>2\<^sup>e \<le> a < 2\<^sup>e\<^sup>+\<^sup>1\<close>.\<close>

function ilog2 :: "real \<Rightarrow> int" where
  "ilog2 a =
     (if a \<le> 0 then 0
      else if a \<ge> 2 then ilog2 (a / 2) + 1
      else if a < 1 then ilog2 (a * 2) - 1
      else 0)"
  by pat_completeness auto
termination
proof (relation "measure (\<lambda>a. nat (ilog2_steps a))")
  show "wf (measure (\<lambda>a. nat (ilog2_steps a)))" by simp
next
  fix a :: real
  assume "\<not> a \<le> 0" "2 \<le> a"
  with ilog2_steps_half [of a]
  show "(a / 2, a) \<in> measure (\<lambda>a. nat (ilog2_steps a))" by (simp add: zless_nat_conj)
next
  fix a :: real
  assume "\<not> a \<le> 0" "\<not> 2 \<le> a" "a < 1"
  with ilog2_steps_double [of a]
  show "(a * 2, a) \<in> measure (\<lambda>a. nat (ilog2_steps a))" by (simp add: zless_nat_conj)
qed

declare ilog2.simps [simp del]

text \<open>
  Rounding to nearest, ties to even: a real of binary exponent \<open>e\<close> is rounded to a
  multiple of \<open>2\<^sup>e\<^sup>-\<^sup>5\<^sup>2\<close>, a subnormal one to a multiple of \<open>2\<^sup>-\<^sup>1\<^sup>0\<^sup>7\<^sup>4\<close>, and a result of
  magnitude \<open>2\<^sup>1\<^sup>0\<^sup>2\<^sup>4\<close> is an infinity.
\<close>

definition b64_round :: "real \<Rightarrow> binary64" where
  "b64_round x =
     (if x = 0 then Num 0
      else
        let a = \<bar>x\<bar>;
            e = max (ilog2 a) (- 1022);
            u = pow2 (e - 52);
            r = of_int (round_half_even (a / u)) * u
        in if r \<ge> 2 ^ 1024 then (if x < 0 then NInf else PInf)
           else Num (if x < 0 then - r else r))"

text \<open>The arithmetic and the comparisons of IEEE 754: the exact result, rounded.\<close>

fun b64_neg :: "binary64 \<Rightarrow> binary64" where
  "b64_neg QNaN = QNaN"
| "b64_neg PInf = NInf"
| "b64_neg NInf = PInf"
| "b64_neg (Num x) = Num (- x)"

fun b64_add :: "binary64 \<Rightarrow> binary64 \<Rightarrow> binary64" where
  "b64_add (Num x) (Num y) = b64_round (x + y)"
| "b64_add QNaN b = QNaN"
| "b64_add a QNaN = QNaN"
| "b64_add PInf NInf = QNaN"
| "b64_add NInf PInf = QNaN"
| "b64_add PInf b = PInf"
| "b64_add NInf b = NInf"
| "b64_add (Num x) b = b"

definition b64_sub :: "binary64 \<Rightarrow> binary64 \<Rightarrow> binary64" where
  "b64_sub a b = b64_add a (b64_neg b)"

fun b64_sgn :: "binary64 \<Rightarrow> real" where
  "b64_sgn QNaN = 0"
| "b64_sgn PInf = 1"
| "b64_sgn NInf = - 1"
| "b64_sgn (Num x) = sgn x"

definition b64_inf :: "real \<Rightarrow> binary64" where
  "b64_inf s = (if s < 0 then NInf else if s > 0 then PInf else QNaN)"

fun b64_mul :: "binary64 \<Rightarrow> binary64 \<Rightarrow> binary64" where
  "b64_mul (Num x) (Num y) = b64_round (x * y)"
| "b64_mul QNaN b = QNaN"
| "b64_mul a QNaN = QNaN"
| "b64_mul a b = b64_inf (b64_sgn a * b64_sgn b)"

fun b64_div :: "binary64 \<Rightarrow> binary64 \<Rightarrow> binary64" where
  "b64_div (Num x) (Num y) = (if y = 0 then b64_inf (sgn x) else b64_round (x / y))"
| "b64_div QNaN b = QNaN"
| "b64_div a QNaN = QNaN"
| "b64_div (Num x) b = Num 0"
| "b64_div a (Num y) = b64_inf (b64_sgn a * (if y < 0 then - 1 else 1))"
| "b64_div a b = QNaN"

fun b64_abs :: "binary64 \<Rightarrow> binary64" where
  "b64_abs QNaN = QNaN"
| "b64_abs PInf = PInf"
| "b64_abs NInf = PInf"
| "b64_abs (Num x) = Num \<bar>x\<bar>"

fun b64_lt :: "binary64 \<Rightarrow> binary64 \<Rightarrow> bool" where
  "b64_lt (Num x) (Num y) = (x < y)"
| "b64_lt QNaN b = False"
| "b64_lt a QNaN = False"
| "b64_lt NInf NInf = False"
| "b64_lt NInf b = True"
| "b64_lt a PInf = (a \<noteq> PInf)"
| "b64_lt a b = False"

fun b64_le :: "binary64 \<Rightarrow> binary64 \<Rightarrow> bool" where
  "b64_le (Num x) (Num y) = (x \<le> y)"
| "b64_le QNaN b = False"
| "b64_le a QNaN = False"
| "b64_le NInf b = True"
| "b64_le a PInf = True"
| "b64_le a b = False"

definition b64_gt :: "binary64 \<Rightarrow> binary64 \<Rightarrow> bool" where
  "b64_gt a b = b64_lt b a"

text \<open>\<^verbatim>\<open>std::numeric_limits<double>::epsilon()\<close> and \<^verbatim>\<open>max()\<close>.\<close>

definition B64_EPSILON :: binary64 where
  "B64_EPSILON = Num (1 / 2 ^ 52)"

definition B64_MAX :: binary64 where
  "B64_MAX = Num ((2 - 1 / 2 ^ 52) * 2 ^ 1023)"

section \<open>Filters (utils.cpp)\<close>

subsection \<open>movingAverage\<close>

text \<open>The inner loop over \<open>j\<close>: the sum and the count of the samples inside the vector.\<close>

fun ma_window :: "double list \<Rightarrow> int \<Rightarrow> int list \<Rightarrow> double \<times> int \<Rightarrow> (double \<times> int) option" where
  "ma_window data i [] (currentSum, count) = Some (currentSum, count)"
| "ma_window data i (j # js) (currentSum, count) =
     (let index = i + j in
      if index \<ge> 0 \<and> index < int (length data)
      then do { v \<leftarrow> vec_at data index;
                ma_window data i js (dadd currentSum v, count + 1) }
      else ma_window data i js (currentSum, count))"

definition ma_point :: "double list \<Rightarrow> int \<Rightarrow> int \<Rightarrow> double option" where
  "ma_point data halfWindow i =
     do { (currentSum, count) \<leftarrow> ma_window data i [- halfWindow..halfWindow] (Fin 0, 0);
          if count > 0 then Some (ddiv currentSum (Fin (of_int count)))
          else vec_at data i }"

text \<open>
  \<^verbatim>\<open>windowSize % 2 == 0\<close> is the test for an even number, also for a negative one, where
  the remainder of C++ and \<open>mod\<close> differ only in the sign of a non-zero result.
\<close>

definition movingAverage :: "double list \<Rightarrow> int \<Rightarrow> double list option" where
  "movingAverage data windowSize0 =
     (let windowSize = (if windowSize0 mod 2 = 0 then windowSize0 + 1 else windowSize0) in
      if windowSize < 3 \<or> data = [] then Some data
      else
        let halfWindow = windowSize div 2;
            smoothed = replicate (length data) (Fin 0)
        in assign_loop (ma_point data halfWindow) [0..int (length data) - 1] smoothed)"

subsection \<open>medianFilter and rollingMedian\<close>

fun median_window :: "double list \<Rightarrow> int \<Rightarrow> int list \<Rightarrow> double list \<Rightarrow> double list option" where
  "median_window data i [] window = Some window"
| "median_window data i (j # js) window =
     (let index = i + j;
          index = max 0 (min (int (length data) - 1) index)
      in do { v \<leftarrow> vec_at data index;
              median_window data i js (window @ [v]) })"

definition median_point :: "double list \<Rightarrow> int \<Rightarrow> int \<Rightarrow> double option" where
  "median_point data halfWindow i =
     do { window \<leftarrow> median_window data i [- halfWindow..halfWindow] [];
          let window = std_sort window;
          vec_at window (int (length window) div 2) }"

definition medianFilter :: "double list \<Rightarrow> int \<Rightarrow> double list option" where
  "medianFilter data windowSize0 =
     (let windowSize = (if windowSize0 mod 2 = 0 then windowSize0 + 1 else windowSize0) in
      if windowSize < 3 \<or> data = [] then Some data
      else
        let halfWindow = windowSize div 2;
            filtered = replicate (length data) (Fin 0)
        in assign_loop (median_point data halfWindow) [0..int (length data) - 1] filtered)"

definition rollingMedian :: "double list \<Rightarrow> int \<Rightarrow> double list option" where
  "rollingMedian data windowSize = medianFilter data windowSize"

subsection \<open>savitzkyGolay\<close>

definition coeffs_5 :: "double list" where
  "coeffs_5 = map Fin [-3, 12, 17, 12, -3]"

definition coeffs_7 :: "double list" where
  "coeffs_7 = map Fin [-2, 3, 6, 7, 6, 3, -2]"

definition coeffs_11 :: "double list" where
  "coeffs_11 = map Fin [-36, 9, 44, 69, 84, 89, 84, 69, 44, 9, -36]"

text \<open>
  The chain that selects the coefficients, the divisor and the window size in use;
  \<open>None\<close> is its last branch, \<^verbatim>\<open>return data\<close>.
\<close>

definition sg_select :: "int \<Rightarrow> (double list \<times> double \<times> int) option" where
  "sg_select windowSize =
     (if windowSize = 5 then Some (coeffs_5, Fin 35, windowSize)
      else if windowSize = 7 then Some (coeffs_7, Fin 21, windowSize)
      else if windowSize \<ge> 9 \<and> windowSize \<le> 15 then Some (coeffs_11, Fin 429, 11)
      else if windowSize > 15 then Some (coeffs_11, Fin 429, 11)
      else None)"

fun sg_window :: "double list \<Rightarrow> double list \<Rightarrow> int \<Rightarrow> int \<Rightarrow> int list \<Rightarrow> double \<Rightarrow> double option" where
  "sg_window data coeffs halfWindow i [] acc = Some acc"
| "sg_window data coeffs halfWindow i (j # js) acc =
     (let index = i + j;
          index = (if index < 0 then - index else index);
          index = (if index \<ge> int (length data) then 2 * (int (length data) - 1) - index
                   else index);
          index = max 0 (min (int (length data) - 1) index)
      in do { c \<leftarrow> vec_at coeffs (j + halfWindow);
              v \<leftarrow> vec_at data index;
              sg_window data coeffs halfWindow i js (dadd acc (dmul c v)) })"

definition sg_point :: "double list \<Rightarrow> double list \<Rightarrow> double \<Rightarrow> int \<Rightarrow> int \<Rightarrow> double option" where
  "sg_point data coeffs nrm halfWindow i =
     do { acc \<leftarrow> sg_window data coeffs halfWindow i [- halfWindow..halfWindow] (Fin 0);
          Some (ddiv acc nrm) }"

definition savitzkyGolay :: "double list \<Rightarrow> int \<Rightarrow> int \<Rightarrow> double list option" where
  "savitzkyGolay data windowSize0 polyOrder =
     (let windowSize = (if windowSize0 mod 2 = 0 then windowSize0 + 1 else windowSize0);
          n = int (length data)
      in
      if windowSize < 5 \<or> polyOrder \<ge> windowSize \<or> n < windowSize then Some data
      else
        case sg_select windowSize of
          None \<Rightarrow> Some data
        | Some (coeffs, nrm, windowSize) \<Rightarrow>
            (let halfWindow = windowSize div 2;
                 smoothed = replicate (length data) (Fin 0)
             in do { smoothed \<leftarrow> assign_loop (sg_point data coeffs nrm halfWindow)
                                   [0..n - 1] smoothed;
                     smoothed \<leftarrow> assign_loop (vec_at data) [0..halfWindow - 1] smoothed;
                     assign_loop (vec_at data) [n - halfWindow..n - 1] smoothed }))"

subsection \<open>linearInterpolate\<close>

definition linearInterpolate :: "double \<Rightarrow> double \<Rightarrow> double \<Rightarrow> double \<Rightarrow> double \<Rightarrow> double" where
  "linearInterpolate x1 y1 x2 y2 x =
     (if dlt (qFabs (dsub x2 x1)) DBL_EPSILON then y1
      else dadd y1 (ddiv (dmul (dsub y2 y1) (dsub x x1)) (dsub x2 x1)))"

text \<open>
  The same function on binary64 values: the difference \<^verbatim>\<open>x2 - x1\<close> that the guard tests
  is the rounded one, and every operation of the formula rounds.
\<close>

definition linearInterpolate_b64 ::
  "binary64 \<Rightarrow> binary64 \<Rightarrow> binary64 \<Rightarrow> binary64 \<Rightarrow> binary64 \<Rightarrow> binary64" where
  "linearInterpolate_b64 x1 y1 x2 y2 x =
     (if b64_lt (b64_abs (b64_sub x2 x1)) B64_EPSILON then y1
      else b64_add y1 (b64_div (b64_mul (b64_sub y2 y1) (b64_sub x x1)) (b64_sub x2 x1)))"

section \<open>Spur removal (PhaseNoiseAnalyzerApp::applySpurRemoval)\<close>

definition SPUR_THRESHOLD :: double where
  "SPUR_THRESHOLD = Fin 5"

definition DEFAULT_SPUR_WINDOW_SIZE :: int where
  "DEFAULT_SPUR_WINDOW_SIZE = 21"

text \<open>
  The numeric part of \<^verbatim>\<open>PlotData\<close>. Of the plotting objects only \<^verbatim>\<open>graphMeasured\<close> is
  kept: \<open>None\<close> is the null pointer, \<open>Some\<close> holds the (key, value) pairs of the graph's
  data container in their order, as binary64 values.
\<close>

record PlotData =
  frequencyOffset :: "double list"
  phaseNoise :: "double list"
  referenceNoise :: "double list"
  phaseNoiseFiltered :: "double list"
  referenceNoiseFiltered :: "double list"
  hasReferenceData :: bool
  isVisible :: bool
  graphMeasured :: "(binary64 \<times> binary64) list option"

subsection \<open>Method 1: baseline comparison\<close>

text \<open>
  The condition of the marking loop; \<^verbatim>\<open>&&\<close> reads \<^verbatim>\<open>baseline[i]\<close> only after
  \<^verbatim>\<open>sourceRef[i]\<close> was found to be a number.
\<close>

definition spur_test :: "double list \<Rightarrow> double list \<Rightarrow> int \<Rightarrow> bool option" where
  "spur_test sourceRef baseline i =
     do { r \<leftarrow> vec_at sourceRef i;
          if isnan r then Some False
          else do { b \<leftarrow> vec_at baseline i;
                    if isnan b then Some False
                    else Some (dgt (dsub r b) SPUR_THRESHOLD) } }"

fun mark_spurs :: "double list \<Rightarrow> double list \<Rightarrow> int list \<Rightarrow> bool list \<Rightarrow> bool list option" where
  "mark_spurs sourceRef baseline [] isSpur = Some isSpur"
| "mark_spurs sourceRef baseline (i # is) isSpur =
     do { c \<leftarrow> spur_test sourceRef baseline i;
          if c then do { isSpur' \<leftarrow> vec_set isSpur i True;
                         mark_spurs sourceRef baseline is isSpur' }
          else mark_spurs sourceRef baseline is isSpur }"

text \<open>
  \<^verbatim>\<open>while (i < N && isSpur[i]) i++;\<close>, which the source runs once to find the end of a
  segment and once more, on \<^verbatim>\<open>right\<close>, to find the first sample after it that is no spur.
\<close>

function skip_spurs :: "bool list \<Rightarrow> int \<Rightarrow> int \<Rightarrow> int option" where
  "skip_spurs isSpur N i =
     (if i < N
      then do { s \<leftarrow> vec_at isSpur i;
                if s then skip_spurs isSpur N (i + 1) else Some i }
      else Some i)"
  by pat_completeness auto
termination
  by (relation "measure (\<lambda>(isSpur, N, i). nat (N - i))") auto

declare skip_spurs.simps [simp del]

text \<open>\<^verbatim>\<open>while (left >= 0 && isSpur[left]) left--;\<close>\<close>

function find_left :: "bool list \<Rightarrow> int \<Rightarrow> int option" where
  "find_left isSpur left =
     (if left \<ge> 0
      then do { s \<leftarrow> vec_at isSpur left;
                if s then find_left isSpur (left - 1) else Some left }
      else Some left)"
  by pat_completeness auto
termination
  by (relation "measure (\<lambda>(isSpur, left). nat (left + 1))") auto

declare find_left.simps [simp del]

text \<open>The value that the interpolation loop of method 1 assigns to \<^verbatim>\<open>processedMeas[j]\<close>.\<close>

definition pass1_value ::
  "double list \<Rightarrow> int \<Rightarrow> int \<Rightarrow> double \<Rightarrow> double \<Rightarrow> double \<Rightarrow> double \<Rightarrow> int \<Rightarrow> double option" where
  "pass1_value freq left right leftFreq leftVal rightFreq rightVal j =
     (if right > left \<and> dgt (qFabs (dsub rightFreq leftFreq)) (Fin (1 / 10 ^ 9))
      then do { f \<leftarrow> vec_at freq j;
                Some (linearInterpolate leftFreq leftVal rightFreq rightVal f) }
      else Some leftVal)"

text \<open>One spur segment that starts at \<open>start\<close>: the index after it and the vector after it.\<close>

definition pass1_segment ::
  "double list \<Rightarrow> bool list \<Rightarrow> int \<Rightarrow> int \<Rightarrow> double list \<Rightarrow> (int \<times> double list) option" where
  "pass1_segment freq isSpur N start processedMeas =
     do { i \<leftarrow> skip_spurs isSpur N start;
          let endi = i - 1;
          left \<leftarrow> find_left isSpur (start - 1);
          let left = (if left < 0 then 0 else left);
          right \<leftarrow> skip_spurs isSpur N (endi + 1);
          let right = (if right \<ge> N then N - 1 else right);
          leftVal \<leftarrow> vec_at processedMeas left;
          rightVal \<leftarrow> vec_at processedMeas right;
          leftFreq \<leftarrow> vec_at freq left;
          rightFreq \<leftarrow> vec_at freq right;
          processedMeas' \<leftarrow>
            assign_loop (pass1_value freq left right leftFreq leftVal rightFreq rightVal)
              [start..endi] processedMeas;
          Some (i, processedMeas') }"

text \<open>
  The outer loop \<^verbatim>\<open>while (i < N)\<close>. It ends because a segment that starts at a spur
  sample ends behind it.
\<close>

lemma skip_spurs_ge: "skip_spurs isSpur N i = Some i' \<Longrightarrow> i \<le> i'"
proof (induction isSpur N i rule: skip_spurs.induct)
  case (1 isSpur N i)
  show ?case
  proof (cases "i < N")
    case True
    with "1.prems" obtain s where s: "vec_at isSpur i = Some s"
      by (cases "vec_at isSpur i") (simp_all add: skip_spurs.simps [of isSpur N i])
    show ?thesis
    proof (cases s)
      case True
      with s \<open>i < N\<close> "1.prems" have "skip_spurs isSpur N (i + 1) = Some i'"
        by (simp add: skip_spurs.simps [of isSpur N i])
      from "1.IH" [OF \<open>i < N\<close> s True this] show ?thesis by simp
    next
      case False
      with s \<open>i < N\<close> "1.prems" show ?thesis
        by (simp add: skip_spurs.simps [of isSpur N i])
    qed
  next
    case False
    with "1.prems" show ?thesis
      by (simp add: skip_spurs.simps [of isSpur N i])
  qed
qed

lemma pass1_segment_advances:
  assumes "pass1_segment freq isSpur N i processedMeas = Some (i', processedMeas')"
    and "i < N" and "vec_at isSpur i = Some True"
  shows "i < i'"
proof -
  from assms(1) have "skip_spurs isSpur N i = Some i'"
    by (auto simp: pass1_segment_def Let_def split: Option.bind_splits)
  with assms(2,3) have "skip_spurs isSpur N (i + 1) = Some i'"
    by (simp add: skip_spurs.simps [of isSpur N i])
  from skip_spurs_ge [OF this] show ?thesis by simp
qed

function pass1 ::
  "double list \<Rightarrow> bool list \<Rightarrow> int \<Rightarrow> int \<Rightarrow> double list \<Rightarrow> double list option" where
  "pass1 freq isSpur N i processedMeas =
     (if i < N
      then do { s \<leftarrow> vec_at isSpur i;
                if s
                then do { (i', processedMeas') \<leftarrow> pass1_segment freq isSpur N i processedMeas;
                          pass1 freq isSpur N i' processedMeas' }
                else pass1 freq isSpur N (i + 1) processedMeas }
      else Some processedMeas)"
  by pat_completeness auto
termination
proof (relation "measure (\<lambda>(freq, isSpur, N, i, processedMeas). nat (N - i))")
  show "wf (measure (\<lambda>(freq, isSpur, N, i, processedMeas). nat (N - i)))" by simp
next
  fix freq :: "double list" and isSpur :: "bool list" and N i :: int
    and processedMeas :: "double list" and s x xa y
  assume "i < N" "vec_at isSpur i = Some s" "s"
    "pass1_segment freq isSpur N i processedMeas = Some x" "(xa, y) = x"
  then have "i < xa" using pass1_segment_advances [of freq isSpur N i processedMeas xa y] by simp
  with \<open>i < N\<close> show "((freq, isSpur, N, xa, y), (freq, isSpur, N, i, processedMeas))
      \<in> measure (\<lambda>(freq, isSpur, N, i, processedMeas). nat (N - i))" by simp
next
  fix freq :: "double list" and isSpur :: "bool list" and N i :: int
    and processedMeas :: "double list"
  assume "i < N"
  then show "((freq, isSpur, N, i + 1, processedMeas), (freq, isSpur, N, i, processedMeas))
      \<in> measure (\<lambda>(freq, isSpur, N, i, processedMeas). nat (N - i))" by simp
qed

declare pass1.simps [simp del]

subsection \<open>Method 2: edge detection\<close>

definition rising_edge :: "double list \<Rightarrow> int \<Rightarrow> bool option" where
  "rising_edge currentRef i =
     do { a \<leftarrow> vec_at currentRef i;
          if isnan a then Some False
          else do { b \<leftarrow> vec_at currentRef (i - 1);
                    if isnan b then Some False
                    else Some (dgt (dsub a b) SPUR_THRESHOLD) } }"

definition falling_edge :: "double list \<Rightarrow> int \<Rightarrow> bool option" where
  "falling_edge currentRef j =
     do { a \<leftarrow> vec_at currentRef j;
          if isnan a then Some False
          else do { b \<leftarrow> vec_at currentRef (j - 1);
                    if isnan b then Some False
                    else Some (dgt (dsub b a) SPUR_THRESHOLD) } }"

text \<open>\<^verbatim>\<open>while (j < N) { if (falling edge at j) break; j++; }\<close>\<close>

function find_falling :: "double list \<Rightarrow> int \<Rightarrow> int \<Rightarrow> int option" where
  "find_falling currentRef N j =
     (if j < N
      then do { f \<leftarrow> falling_edge currentRef j;
                if f then Some j else find_falling currentRef N (j + 1) }
      else Some j)"
  by pat_completeness auto
termination
  by (relation "measure (\<lambda>(currentRef, N, j). nat (N - j))") auto

declare find_falling.simps [simp del]

lemma find_falling_ge: "find_falling currentRef N j = Some j' \<Longrightarrow> j \<le> j'"
proof (induction currentRef N j rule: find_falling.induct)
  case (1 currentRef N j)
  show ?case
  proof (cases "j < N")
    case True
    with "1.prems" obtain f where f: "falling_edge currentRef j = Some f"
      by (cases "falling_edge currentRef j")
        (simp_all add: find_falling.simps [of currentRef N j])
    show ?thesis
    proof (cases f)
      case True
      with f \<open>j < N\<close> "1.prems" show ?thesis
        by (simp add: find_falling.simps [of currentRef N j])
    next
      case False
      with f \<open>j < N\<close> "1.prems" have "find_falling currentRef N (j + 1) = Some j'"
        by (simp add: find_falling.simps [of currentRef N j])
      from "1.IH" [OF \<open>j < N\<close> f False this] show ?thesis by simp
    qed
  next
    case False
    with "1.prems" show ?thesis
      by (simp add: find_falling.simps [of currentRef N j])
  qed
qed

text \<open>The value that the interpolation loop of method 2 assigns to \<^verbatim>\<open>finalMeas[k]\<close>.\<close>

definition pass2_value ::
  "double list \<Rightarrow> double \<Rightarrow> double \<Rightarrow> double \<Rightarrow> double \<Rightarrow> int \<Rightarrow> double option" where
  "pass2_value freq leftFreq leftVal rightFreq rightVal k =
     (if dgt (qFabs (dsub rightFreq leftFreq)) (Fin (1 / 10 ^ 9))
      then do { f \<leftarrow> vec_at freq k;
                Some (linearInterpolate leftFreq leftVal rightFreq rightVal f) }
      else Some leftVal)"

text \<open>
  The body of the branch taken at a rising edge at \<open>start\<close>: the next value of \<open>i\<close> and
  the vector after it.
\<close>

definition pass2_region ::
  "double list \<Rightarrow> double list \<Rightarrow> int \<Rightarrow> int \<Rightarrow> double list \<Rightarrow> (int \<times> double list) option" where
  "pass2_region freq currentRef N start finalMeas =
     do { j \<leftarrow> find_falling currentRef N (start + 1);
          if j < N
          then do { leftVal \<leftarrow> vec_at finalMeas (start - 1);
                    rightVal \<leftarrow> vec_at finalMeas j;
                    leftFreq \<leftarrow> vec_at freq (start - 1);
                    rightFreq \<leftarrow> vec_at freq j;
                    finalMeas' \<leftarrow>
                      assign_loop (pass2_value freq leftFreq leftVal rightFreq rightVal)
                        [start..j - 1] finalMeas;
                    Some (j, finalMeas') }
          else do { leftVal \<leftarrow> vec_at finalMeas (start - 1);
                    finalMeas' \<leftarrow> assign_loop (\<lambda>k. Some leftVal) [start..N - 1] finalMeas;
                    Some (N, finalMeas') } }"

lemma pass2_region_advances:
  assumes "pass2_region freq currentRef N i finalMeas = Some (i', finalMeas')" and "i < N - 1"
  shows "i < i'"
proof -
  from assms(1) obtain j where j: "find_falling currentRef N (i + 1) = Some j"
    and "i' = j \<or> i' = N"
    by (auto simp: pass2_region_def split: Option.bind_splits if_splits)
  with find_falling_ge [OF j] assms(2) show ?thesis by auto
qed

text \<open>The loop \<^verbatim>\<open>while (i < N - 1)\<close>.\<close>

function pass2 ::
  "double list \<Rightarrow> double list \<Rightarrow> int \<Rightarrow> int \<Rightarrow> double list \<Rightarrow> double list option" where
  "pass2 freq currentRef N i finalMeas =
     (if i < N - 1
      then do { r \<leftarrow> rising_edge currentRef i;
                if r
                then do { (i', finalMeas') \<leftarrow> pass2_region freq currentRef N i finalMeas;
                          pass2 freq currentRef N i' finalMeas' }
                else pass2 freq currentRef N (i + 1) finalMeas }
      else Some finalMeas)"
  by pat_completeness auto
termination
proof (relation "measure (\<lambda>(freq, currentRef, N, i, finalMeas). nat (N - i))")
  show "wf (measure (\<lambda>(freq, currentRef, N, i, finalMeas). nat (N - i)))" by simp
next
  fix freq currentRef :: "double list" and N i :: int
    and finalMeas :: "double list" and r x xa y
  assume "i < N - 1" "rising_edge currentRef i = Some r" "r"
    "pass2_region freq currentRef N i finalMeas = Some x" "(xa, y) = x"
  then have "i < xa" using pass2_region_advances [of freq currentRef N i finalMeas xa y] by simp
  with \<open>i < N - 1\<close> show "((freq, currentRef, N, xa, y), (freq, currentRef, N, i, finalMeas))
      \<in> measure (\<lambda>(freq, currentRef, N, i, finalMeas). nat (N - i))" by simp
next
  fix freq currentRef :: "double list" and N i :: int and finalMeas :: "double list"
  assume "i < N - 1"
  then show "((freq, currentRef, N, i + 1, finalMeas), (freq, currentRef, N, i, finalMeas))
      \<in> measure (\<lambda>(freq, currentRef, N, i, finalMeas). nat (N - i))" by simp
qed

declare pass2.simps [simp del]

subsection \<open>applySpurRemoval\<close>

text \<open>
  The two methods in a row, as the loop body runs them once \<^verbatim>\<open>N >= 3\<close> is known: from
  the copy \<^verbatim>\<open>processedMeas = sourceMeas\<close> to \<^verbatim>\<open>finalMeas\<close>, the new
  \<^verbatim>\<open>phaseNoiseFiltered\<close>.
\<close>

definition removeSpurs :: "double list \<Rightarrow> double list \<Rightarrow> double list \<Rightarrow> double list option" where
  "removeSpurs freq sourceRef sourceMeas =
     (let processedMeas = sourceMeas;
          N = int (length sourceRef)
      in do { baseline \<leftarrow> rollingMedian sourceRef DEFAULT_SPUR_WINDOW_SIZE;
              isSpur \<leftarrow> mark_spurs sourceRef baseline [0..N - 1] (replicate (nat N) False);
              processedMeas \<leftarrow> pass1 freq isSpur N 0 processedMeas;
              pass2 freq sourceRef N 1 processedMeas })"

text \<open>The body of \<^verbatim>\<open>for (PlotData& data : m_datasets)\<close> when spur removal is enabled.\<close>

definition applySpurRemoval_dataset :: "bool \<Rightarrow> PlotData \<Rightarrow> PlotData option" where
  "applySpurRemoval_dataset m_filteringEnabled data =
     (if \<not> hasReferenceData data \<or> frequencyOffset data = []
      then (if m_filteringEnabled then Some data
            else Some (data\<lparr>phaseNoiseFiltered := phaseNoise data,
                             referenceNoiseFiltered := referenceNoise data\<rparr>))
      else
        let sourceRef = (if m_filteringEnabled then referenceNoiseFiltered data
                         else referenceNoise data);
            sourceMeas = (if m_filteringEnabled then phaseNoiseFiltered data
                          else phaseNoise data)
        in if int (length sourceRef) < 3
           then Some (data\<lparr>phaseNoiseFiltered := sourceMeas\<rparr>)
           else do { finalMeas \<leftarrow> removeSpurs (frequencyOffset data) sourceRef sourceMeas;
                     let data = data\<lparr>phaseNoiseFiltered := finalMeas\<rparr>;
                     Some (if \<not> m_filteringEnabled
                           then data\<lparr>referenceNoiseFiltered := referenceNoise data\<rparr>
                           else data) })"

fun apply_each :: "('a \<Rightarrow> 'a option) \<Rightarrow> 'a list \<Rightarrow> 'a list option" where
  "apply_each f [] = Some []"
| "apply_each f (x # xs) = do { y \<leftarrow> f x; ys \<leftarrow> apply_each f xs; Some (y # ys) }"

definition applySpurRemoval :: "bool \<Rightarrow> bool \<Rightarrow> PlotData list \<Rightarrow> PlotData list option" where
  "applySpurRemoval m_spurRemovalEnabled m_filteringEnabled m_datasets =
     (if \<not> m_spurRemovalEnabled
      then Some (map (\<lambda>data. if m_filteringEnabled then data
                              else data\<lparr>phaseNoiseFiltered := phaseNoise data,
                                        referenceNoiseFiltered := referenceNoise data\<rparr>)
                   m_datasets)
      else apply_each (applySpurRemoval_dataset m_filteringEnabled) m_datasets)"

section \<open>Spot noise (constants.h, PhaseNoiseAnalyzerApp::calculateSpotNoise)\<close>

text \<open>
  The spot noise compares logarithms that differ in their last bits, so its doubles are
  binary64 values. A decimal literal of the source is the double nearest to it.
\<close>

definition FREQ_POINTS :: "binary64 list" where
  "FREQ_POINTS = map b64_round [1 / 10, 1, 10, 100, 1000, 10000, 100000, 1000000, 10000000]"

text \<open>
  \<^verbatim>\<open>QString::arg(double, 0, 'f', 0)\<close>: the decimal digits of the nearest integer, a tie
  going to the even one.
\<close>

fun digits_of :: "nat \<Rightarrow> string" where
  "digits_of n =
     (if n < 10 then [''0123456789'' ! n]
      else digits_of (n div 10) @ [''0123456789'' ! (n mod 10)])"

declare digits_of.simps [simp del]

fun format_f0 :: "binary64 \<Rightarrow> string" where
  "format_f0 QNaN = ''nan''"
| "format_f0 PInf = ''inf''"
| "format_f0 NInf = ''-inf''"
| "format_f0 (Num r) =
     (if r < 0 then ''-'' @ digits_of (nat (round_half_even (- r)))
      else digits_of (nat (round_half_even r)))"

text \<open>
  \<^verbatim>\<open>FrequencyPointInfo\<close> without \<^verbatim>\<open>formattedName\<close>, which \<^verbatim>\<open>calculateSpotNoise\<close> does
  not read. The field \<^verbatim>\<open>value\<close> is \<open>freq_value\<close> here.
\<close>

record FrequencyPointInfo =
  freq_value :: binary64
  displayName :: string

definition getFreqInfo :: "binary64 \<Rightarrow> FrequencyPointInfo" where
  "getFreqInfo freq =
     (if b64_le (Num 1000000) freq
      then \<lparr>freq_value = freq, displayName = format_f0 (b64_div freq (Num 1000000)) @ '' MHz''\<rparr>
      else if b64_le (Num 1000) freq
      then \<lparr>freq_value = freq, displayName = format_f0 (b64_div freq (Num 1000)) @ '' kHz''\<rparr>
      else \<lparr>freq_value = freq, displayName = format_f0 freq @ '' Hz''\<rparr>)"

definition FREQ_POINT_INFOS :: "FrequencyPointInfo list" where
  "FREQ_POINT_INFOS = map getFreqInfo FREQ_POINTS"

text \<open>
  The scan of the graph's data; the state is \<^verbatim>\<open>minDist\<close>, \<^verbatim>\<open>closestFreq\<close>,
  \<^verbatim>\<open>closestNoise\<close> and \<^verbatim>\<open>found\<close>. \<^verbatim>\<open>qLn\<close> is the logarithm of the C library, whose
  values the source does not fix: it is a parameter, and what is proved of the scan holds
  for every function in its place. The subtraction, \<^verbatim>\<open>qAbs\<close> and the comparison are those
  of binary64.
\<close>

fun closest_scan ::
  "(binary64 \<Rightarrow> binary64) \<Rightarrow> binary64 \<Rightarrow> (binary64 \<times> binary64) list
     \<Rightarrow> binary64 \<times> binary64 \<times> binary64 \<times> bool \<Rightarrow> binary64 \<times> binary64 \<times> binary64 \<times> bool" where
  "closest_scan qLn targetFreq [] st = st"
| "closest_scan qLn targetFreq ((key, val) # rest) (minDist, closestFreq, closestNoise, found) =
     (let currentFreq = key;
          dist = b64_abs (b64_sub (qLn currentFreq) (qLn targetFreq))
      in if b64_lt dist minDist
         then closest_scan qLn targetFreq rest (dist, currentFreq, val, True)
         else closest_scan qLn targetFreq rest (minDist, closestFreq, closestNoise, found))"

text \<open>The body of \<^verbatim>\<open>for (const auto& freqInfo : Constants::FREQ_POINT_INFOS)\<close>.\<close>

definition spot_noise_point ::
  "(binary64 \<Rightarrow> binary64) \<Rightarrow> (binary64 \<times> binary64) list \<Rightarrow> binary64 \<Rightarrow> binary64
     \<Rightarrow> FrequencyPointInfo
     \<Rightarrow> (string \<rightharpoonup> binary64 \<times> binary64) \<Rightarrow> (string \<rightharpoonup> binary64 \<times> binary64)" where
  "spot_noise_point qLn dataContainer xMinView xMaxView freqInfo m_spotNoiseData =
     (let targetFreq = freq_value freqInfo in
      if b64_lt targetFreq xMinView \<or> b64_gt targetFreq xMaxView then m_spotNoiseData
      else
        case closest_scan qLn targetFreq dataContainer (B64_MAX, QNaN, QNaN, False) of
          (minDist, closestFreq, closestNoise, found) \<Rightarrow>
            if found
            then (if b64_lt (b64_abs (b64_sub (qLn closestFreq) (qLn targetFreq))) (qLn (Num 5))
                  then m_spotNoiseData(displayName freqInfo \<mapsto> (closestFreq, closestNoise))
                  else m_spotNoiseData)
            else m_spotNoiseData)"

definition calculateSpotNoise ::
  "(binary64 \<Rightarrow> binary64) \<Rightarrow> PlotData list \<Rightarrow> binary64 \<Rightarrow> binary64
     \<Rightarrow> (string \<rightharpoonup> binary64 \<times> binary64)" where
  "calculateSpotNoise qLn m_datasets xMinView xMaxView =
     (if m_datasets = [] then Map.empty
      else
        case find (\<lambda>data. isVisible data \<and> graphMeasured data \<noteq> None
                            \<and> frequencyOffset data \<noteq> []) m_datasets of
          None \<Rightarrow> Map.empty
        | Some firstVisibleData \<Rightarrow>
            (case graphMeasured firstVisibleData of
               None \<Rightarrow> Map.empty
             | Some dataContainer \<Rightarrow>
                 fold (spot_noise_point qLn dataContainer xMinView xMaxView)
                   FREQ_POINT_INFOS Map.empty))"

text \<open>
  The logarithms that the C library returns at the arguments used in the examples below;
  each is the double nearest to the real logarithm. The table has no other entry, and
  gives not-a-number elsewhere.
\<close>

definition log_values :: "(real \<times> real) list" where
  "log_values =
     [(5, 7248263982714163 / 2 ^ 52),
      (10, 2592480341699211 / 2 ^ 50),
      (50, 8809092674755503 / 2 ^ 51),
      (100, 2592480341699211 / 2 ^ 49),
      (200, 5965375029419091 / 2 ^ 50),
      (1000, 243045032034301 / 2 ^ 45),
      (10000, 2592480341699211 / 2 ^ 48)]"

fun log_table :: "binary64 \<Rightarrow> binary64" where
  "log_table (Num x) = (case map_of log_values x of Some l \<Rightarrow> Num l | None \<Rightarrow> QNaN)"
| "log_table a = QNaN"

section \<open>Notions of the specification\<close>

text \<open>The window after \<^verbatim>\<open>if (windowSize % 2 == 0) windowSize++\<close>.\<close>

definition oddified :: "int \<Rightarrow> int" where
  "oddified w = (if w mod 2 = 0 then w + 1 else w)"

text \<open>
  Reflected indexing as the specification words it: an index below zero reflects to its
  negation, an index from \<open>n\<close> on reflects to \<open>2 * (n - 1) - index\<close>, and the result is
  clamped to the valid range.
\<close>

definition reflect_index :: "int \<Rightarrow> int \<Rightarrow> int" where
  "reflect_index n index =
     max 0 (min (n - 1)
       (if index < 0 then - index else if index \<ge> n then 2 * (n - 1) - index else index))"

definition kernel_11 :: "real list" where
  "kernel_11 = [-36, 9, 44, 69, 84, 89, 84, 69, 44, 9, -36]"

text \<open>
  The convolution of the specification at index \<open>i\<close>: the eleven products, summed from
  the left, divided by 429.
\<close>

definition kernel_11_convolution :: "double list \<Rightarrow> nat \<Rightarrow> double" where
  "kernel_11_convolution data i =
     ddiv (foldl dadd (Fin 0)
             (map (\<lambda>k. dmul (Fin (kernel_11 ! k))
                          (data ! nat (reflect_index (int (length data)) (int i + int k - 5))))
                [0..<11]))
          (Fin 429)"

text \<open>
  The logarithmic distance of the specification, \<open>|ln f - ln t|\<close>, as the scan computes it:
  the rounded difference of the two logarithms that \<^verbatim>\<open>qLn\<close> returns.
\<close>

definition log_distance :: "(binary64 \<Rightarrow> binary64) \<Rightarrow> binary64 \<Rightarrow> binary64 \<Rightarrow> binary64" where
  "log_distance qLn f t = b64_abs (b64_sub (qLn f) (qLn t))"

text \<open>
  What the body of the loop over the decade frequencies stores for one of them, if
  anything: \<open>spot_noise_point\<close> without the map.
\<close>

definition spot_noise_hit ::
  "(binary64 \<Rightarrow> binary64) \<Rightarrow> (binary64 \<times> binary64) list \<Rightarrow> binary64 \<Rightarrow> binary64
     \<Rightarrow> FrequencyPointInfo \<Rightarrow> (binary64 \<times> binary64) option" where
  "spot_noise_hit qLn dataContainer xMinView xMaxView freqInfo =
     (let targetFreq = freq_value freqInfo in
      if b64_lt targetFreq xMinView \<or> b64_gt targetFreq xMaxView then None
      else
        case closest_scan qLn targetFreq dataContainer (B64_MAX, QNaN, QNaN, False) of
          (minDist, closestFreq, closestNoise, found) \<Rightarrow>
            if found \<and> b64_lt (b64_abs (b64_sub (qLn closestFreq) (qLn targetFreq))) (qLn (Num 5))
            then Some (closestFreq, closestNoise) else None)"

section \<open>Facts about vectors and the filters\<close>

lemma vec_at_Some [simp]: "0 \<le> i \<Longrightarrow> i < int (length xs) \<Longrightarrow> vec_at xs i = Some (xs ! nat i)"
  by (simp add: vec_at_def)

lemma vec_set_Some [simp]: "0 \<le> i \<Longrightarrow> i < int (length xs) \<Longrightarrow> vec_set xs i v = Some (xs[nat i := v])"
  by (simp add: vec_set_def)

lemma assign_loop_Some:
  assumes "\<forall>i\<in>set is. 0 \<le> i \<and> i < int (length out) \<and> f i = Some (g i)"
  shows "\<exists>r. assign_loop f is out = Some r \<and> length r = length out \<and>
           (\<forall>k<length out. r ! k = (if int k \<in> set is then g (int k) else out ! k))"
  using assms
proof (induction "is" arbitrary: out)
  case Nil
  then show ?case by simp
next
  case (Cons i "is")
  let ?out' = "out[nat i := g i]"
  from Cons.prems have i: "0 \<le> i" "i < int (length out)" "f i = Some (g i)" by auto
  from Cons.prems have "\<forall>j\<in>set is. 0 \<le> j \<and> j < int (length ?out') \<and> f j = Some (g j)" by auto
  from Cons.IH [OF this] obtain r where r: "assign_loop f is ?out' = Some r" "length r = length ?out'"
     "\<forall>k<length ?out'. r ! k = (if int k \<in> set is then g (int k) else ?out' ! k)" by blast
  have "assign_loop f (i # is) out = Some r" using i r(1) by simp
  moreover have "length r = length out" using r(2) by simp
  moreover have "\<forall>k<length out. r ! k = (if int k \<in> set (i # is) then g (int k) else out ! k)"
  proof (intro allI impI)
    fix k assume k: "k < length out"
    show "r ! k = (if int k \<in> set (i # is) then g (int k) else out ! k)"
    proof (cases "int k \<in> set is")
      case True then show ?thesis using r(3) k by simp
    next
      case False
      show ?thesis
      proof (cases "int k = i")
        case True
        then have "nat i = k" by simp
        then show ?thesis using r(3) k False True by auto
      next
        case F2: False
        then have "nat i \<noteq> k" using i by auto
        then show ?thesis using r(3) k False F2 by auto
      qed
    qed
  qed
  ultimately show ?case by blast
qed

lemma ma_window_total: "\<exists>r. ma_window data i js acc = Some r"
proof (induction js arbitrary: acc)
  case Nil
  then show ?case by (cases acc) simp
next
  case (Cons j js)
  then show ?case by (cases acc) (simp add: Let_def)
qed

lemma ma_point_total: "0 \<le> i \<Longrightarrow> i < int (length data) \<Longrightarrow> \<exists>v. ma_point data h i = Some v"
  using ma_window_total [of data i "[- h..h]" "(Fin 0, 0)"]
  by (auto simp: ma_point_def split: prod.splits)

lemma length_std_insert [simp]: "length (std_insert x xs) = Suc (length xs)"
  by (induction xs) auto

lemma length_std_sort [simp]: "length (std_sort xs) = length xs"
  by (induction xs) auto

text \<open>
  On a window without not-a-number \<open>std_sort\<close> returns the ascending arrangement of the
  window, which is what \<^verbatim>\<open>std::sort\<close> returns.
\<close>

lemma set_std_insert: "set (std_insert x xs) = insert x (set xs)"
  by (induction xs) auto

lemma count_std_insert: "count_list (std_insert x xs) v = count_list (x # xs) v"
  by (induction xs) auto

lemma count_std_sort: "count_list (std_sort xs) v = count_list xs v"
  by (induction xs) (auto simp: count_std_insert)

lemma set_std_sort: "set (std_sort xs) = set xs"
  by (induction xs) (auto simp: set_std_insert)

lemma sorted_std_insert:
  assumes "\<not> isnan x" "\<forall>y\<in>set xs. \<not> isnan y" "sorted_wrt dle xs"
  shows "sorted_wrt dle (std_insert x xs)"
  using assms
proof (induction xs)
  case Nil
  then show ?case by simp
next
  case (Cons y ys)
  obtain a where a: "x = Fin a" using Cons.prems(1) by (cases x) auto
  obtain b where b: "y = Fin b" using Cons.prems(2) by (cases y) auto
  show ?case
  proof (cases "dlt x y")
    case True
    have "\<forall>z\<in>set ys. dle x z"
    proof
      fix z assume z: "z \<in> set ys"
      with Cons.prems(2) obtain c where c: "z = Fin c" by (cases z) auto
      from z Cons.prems(3) have "dle y z" by simp
      with True show "dle x z" by (simp add: a b c)
    qed
    with True Cons.prems show ?thesis by (simp add: a b)
  next
    case False
    then have "dle y x" by (simp add: a b)
    with False Cons show ?thesis by (auto simp: set_std_insert)
  qed
qed

lemma std_sort_sorted:
  "\<forall>y\<in>set xs. \<not> isnan y \<Longrightarrow>
     sorted_wrt dle (std_sort xs) \<and> (\<forall>v. count_list (std_sort xs) v = count_list xs v)"
proof (induction xs)
  case Nil
  then show ?case by simp
next
  case (Cons x xs)
  then have s: "sorted_wrt dle (std_sort xs)" and n: "\<not> isnan x" by auto
  from Cons.prems have "\<forall>y\<in>set (std_sort xs). \<not> isnan y" by (simp add: set_std_sort)
  from sorted_std_insert [OF n this s] have "sorted_wrt dle (std_sort (x # xs))" by simp
  moreover have "\<forall>v. count_list (std_sort (x # xs)) v = count_list (x # xs) v"
    by (rule allI) (rule count_std_sort)
  ultimately show ?case by blast
qed

lemma median_window_total:
  "data \<noteq> [] \<Longrightarrow> \<exists>w. median_window data i js window = Some w \<and> length w = length window + length js"
proof (induction js arbitrary: window)
  case Nil
  then show ?case by simp
next
  case (Cons j js)
  let ?idx = "max 0 (min (int (length data) - 1) (i + j))"
  have r: "0 \<le> ?idx" "?idx < int (length data)" using Cons.prems by auto
  from Cons.IH [OF Cons.prems, of "window @ [data ! nat ?idx]"] r
  show ?case by (simp add: Let_def)
qed

lemma median_point_total:
  assumes "data \<noteq> []" "0 \<le> h"
  shows "\<exists>v. median_point data h i = Some v"
proof -
  from median_window_total [OF assms(1), of i "[- h..h]" "[]"]
  obtain w where w: "median_window data i [- h..h] [] = Some w" "length w = length [- h..h]" by auto
  have "int (length w) > 0" using w(2) assms(2) by simp
  then have "0 \<le> int (length w) div 2" "int (length w) div 2 < int (length w)" by presburger+
  then have "0 \<le> int (length (std_sort w)) div 2"
    "int (length (std_sort w)) div 2 < int (length (std_sort w))" by simp_all
  then show ?thesis using w(1) by (simp add: median_point_def)
qed

lemma sg_window_total:
  assumes "data \<noteq> []" "\<forall>j\<in>set js. 0 \<le> j + h \<and> j + h < int (length coeffs)"
  shows "\<exists>v. sg_window data coeffs h i js acc = Some v"
  using assms(2)
proof (induction js arbitrary: acc)
  case Nil
  then show ?case by simp
next
  case (Cons j js)
  define a where "a = (if i + j < 0 then - (i + j) else i + j)"
  define b where "b = (if a \<ge> int (length data) then 2 * (int (length data) - 1) - a else a)"
  let ?idx = "max 0 (min (int (length data) - 1) b)"
  have r: "0 \<le> ?idx" "?idx < int (length data)" using assms(1) by auto
  have c: "0 \<le> j + h" "j + h < int (length coeffs)" using Cons.prems by auto
  from Cons.prems have "\<forall>j\<in>set js. 0 \<le> j + h \<and> j + h < int (length coeffs)" by simp
  from Cons.IH [OF this] r c
  show ?case unfolding sg_window.simps Let_def a_def [symmetric] b_def [symmetric] by simp
qed

lemma sg_point_total:
  assumes "data \<noteq> []" "int (length coeffs) = 2 * h + 1"
  shows "\<exists>v. sg_point data coeffs nrm h i = Some v"
proof -
  have "\<forall>j\<in>set [- h..h]. 0 \<le> j + h \<and> j + h < int (length coeffs)" using assms(2) by auto
  from sg_window_total [OF assms(1) this, of i "Fin 0"] show ?thesis
    by (auto simp: sg_point_def)
qed

lemma sg_select_cases:
  assumes "sg_select w = Some (coeffs, nrm, w')"
  shows "((w' = 5 \<and> w = 5 \<and> coeffs = coeffs_5 \<and> nrm = Fin 35) \<or>
          (w' = 7 \<and> w = 7 \<and> coeffs = coeffs_7 \<and> nrm = Fin 21) \<or>
          (w' = 11 \<and> w \<ge> 9 \<and> coeffs = coeffs_11 \<and> nrm = Fin 429)) \<and> int (length coeffs) = w'"
  using assms by (auto simp: sg_select_def coeffs_5_def coeffs_7_def coeffs_11_def split: if_splits)

lemma movingAverage_total: "\<exists>r. movingAverage data w = Some r \<and> length r = length data"
proof -
  define w1 where "w1 = (if w mod 2 = 0 then w + 1 else w)"
  show ?thesis
  proof (cases "w1 < 3 \<or> data = []")
    case True
    then show ?thesis by (auto simp: movingAverage_def Let_def w1_def)
  next
    case False
    define z where "z = replicate (length data) (Fin 0)"
    have "\<forall>i\<in>set [0..int (length data) - 1]. 0 \<le> i \<and> i < int (length z) \<and>
            ma_point data (w1 div 2) i = Some (the (ma_point data (w1 div 2) i))"
      using ma_point_total [of _ data "w1 div 2"] by (auto simp: z_def)
    from assign_loop_Some [OF this] obtain r1 where
      "assign_loop (ma_point data (w1 div 2)) [0..int (length data) - 1] z = Some r1"
      "length r1 = length data" by (auto simp: z_def)
    then show ?thesis using False
      by (simp add: movingAverage_def Let_def w1_def [symmetric] z_def [symmetric])
  qed
qed

lemma medianFilter_total: "\<exists>r. medianFilter data w = Some r \<and> length r = length data"
proof -
  define w1 where "w1 = (if w mod 2 = 0 then w + 1 else w)"
  show ?thesis
  proof (cases "w1 < 3 \<or> data = []")
    case True
    then show ?thesis by (auto simp: medianFilter_def Let_def w1_def)
  next
    case False
    then have ne: "data \<noteq> []" and h: "0 \<le> w1 div 2" by auto
    define z where "z = replicate (length data) (Fin 0)"
    have "\<forall>i\<in>set [0..int (length data) - 1]. 0 \<le> i \<and> i < int (length z) \<and>
            median_point data (w1 div 2) i = Some (the (median_point data (w1 div 2) i))"
      using median_point_total [OF ne h] by (auto simp: z_def)
    from assign_loop_Some [OF this] obtain r1 where
      "assign_loop (median_point data (w1 div 2)) [0..int (length data) - 1] z = Some r1"
      "length r1 = length data" by (auto simp: z_def)
    then show ?thesis using False
      by (simp add: medianFilter_def Let_def w1_def [symmetric] z_def [symmetric])
  qed
qed

lemma savitzkyGolay_identity:
  "oddified w < 5 \<or> p \<ge> oddified w \<or> int (length data) < oddified w \<Longrightarrow> savitzkyGolay data w p = Some data"
  by (auto simp: savitzkyGolay_def Let_def oddified_def)

lemma sg_select_odd: "5 \<le> w \<Longrightarrow> w mod 2 = 1 \<Longrightarrow> \<exists>c nrm w'. sg_select w = Some (c, nrm, w')"
  apply (simp add: sg_select_def) by presburger

lemma oddified_odd: "oddified w mod 2 = 1"
  unfolding oddified_def by presburger

lemma savitzkyGolay_main:
  assumes "5 \<le> oddified w" "p < oddified w" "oddified w \<le> int (length data)"
  shows "\<exists>r coeffs nrm w'. sg_select (oddified w) = Some (coeffs, nrm, w') \<and>
     savitzkyGolay data w p = Some r \<and> length r = length data \<and>
     (\<forall>k<length data. r ! k = (if int k < w' div 2 \<or> int (length data) - w' div 2 \<le> int k then data ! k
                                 else the (sg_point data coeffs nrm (w' div 2) (int k))))"
proof -
  define w1 where "w1 = oddified w"
  have n: "5 \<le> w1" "w1 \<le> int (length data)" "\<not> p \<ge> w1" using assms by (auto simp: w1_def)
  then have ne: "data \<noteq> []" by auto
  from sg_select_odd [OF n(1)] oddified_odd [of w]
  obtain coeffs nrm w' where Some: "sg_select w1 = Some (coeffs, nrm, w')" by (auto simp: w1_def)
  note sel = sg_select_cases [OF Some]
  define h where "h = w' div 2"
  have len: "int (length coeffs) = 2 * h + 1" and hn: "0 \<le> h" "h \<le> int (length data)"
    using sel n by (auto simp: h_def)
  define z where "z = replicate (length data) (Fin 0)"
  define g where "g = (\<lambda>i. the (sg_point data coeffs nrm h i))"
  have "\<forall>i\<in>set [0..int (length data) - 1]. 0 \<le> i \<and> i < int (length z) \<and>
          sg_point data coeffs nrm h i = Some (g i)"
    using sg_point_total [OF ne len] by (auto simp: z_def g_def)
  from assign_loop_Some [OF this] obtain r1 where
    r1: "assign_loop (sg_point data coeffs nrm h) [0..int (length data) - 1] z = Some r1"
        "length r1 = length data" "\<forall>k<length data. r1 ! k = g (int k)" by (auto simp: z_def)
  have "\<forall>i\<in>set [0..h - 1]. 0 \<le> i \<and> i < int (length r1) \<and>
          vec_at data i = Some (data ! nat i)" using hn r1(2) by auto
  from assign_loop_Some [OF this] obtain r2 where
    r2: "assign_loop (vec_at data) [0..h - 1] r1 = Some r2" "length r2 = length data"
      "\<forall>k<length data. r2 ! k = (if int k < h then data ! k else r1 ! k)"
    using r1(2) by auto
  have "\<forall>i\<in>set [int (length data) - h..int (length data) - 1]. 0 \<le> i \<and> i < int (length r2) \<and>
          vec_at data i = Some (data ! nat i)" using hn r2(2) by auto
  from assign_loop_Some [OF this] obtain r3 where
    r3: "assign_loop (vec_at data) [int (length data) - h..int (length data) - 1] r2 = Some r3"
        "length r3 = length data"
      "\<forall>k<length data. r3 ! k = (if int (length data) - h \<le> int k then data ! k else r2 ! k)"
    using r2(2) by auto
  have "savitzkyGolay data w p = Some r3" using n Some r1 r2 r3
    by (simp add: savitzkyGolay_def Let_def oddified_def [symmetric] w1_def [symmetric] h_def [symmetric] z_def [symmetric])
  moreover have "\<forall>k<length data. r3 ! k = (if int k < h \<or> int (length data) - h \<le> int k then data ! k
                                 else g (int k))"
    using r1(3) r2(3) r3(3) by auto
  ultimately show ?thesis using Some r3(2) unfolding w1_def h_def g_def by blast
qed

lemma savitzkyGolay_total: "\<exists>r. savitzkyGolay data w p = Some r \<and> length r = length data"
proof (cases "oddified w < 5 \<or> p \<ge> oddified w \<or> int (length data) < oddified w")
  case True
  from savitzkyGolay_identity [OF this] show ?thesis by simp
next
  case False
  then have "5 \<le> oddified w" "p < oddified w" "oddified w \<le> int (length data)" by auto
  from savitzkyGolay_main [OF this] show ?thesis by blast
qed

lemma sg_window_foldl:
  assumes "\<forall>j\<in>set js. 0 \<le> j + h \<and> j + h < int (length coeffs) \<and> 0 \<le> i + j \<and> i + j < int (length data)"
  shows "sg_window data coeffs h i js acc =
     Some (foldl dadd acc (map (\<lambda>j. dmul (coeffs ! nat (j + h)) (data ! nat (i + j))) js))"
  using assms
proof (induction js arbitrary: acc)
  case Nil
  then show ?case by simp
next
  case (Cons j js)
  then have j: "0 \<le> j + h" "j + h < int (length coeffs)" "0 \<le> i + j" "i + j < int (length data)"
    by auto
  from Cons.prems have "\<forall>j\<in>set js. 0 \<le> j + h \<and> j + h < int (length coeffs) \<and> 0 \<le> i + j \<and> i + j < int (length data)"
    by simp
  from Cons.IH [OF this] j show ?case by (simp add: Let_def)
qed

lemma upto_m5_5: "[-5..5::int] = [-5, -4, -3, -2, -1, 0, 1, 2, 3, 4, 5]"
  by code_simp

lemma upt_0_11: "[0..<11] = [0, 1, 2, 3, 4, 5, 6, 7, 8, 9, 10::nat]"
  by code_simp

lemma reflect_index_id: "0 \<le> x \<Longrightarrow> x < n \<Longrightarrow> reflect_index n x = x"
  by (simp add: reflect_index_def)

lemma sg_point_interior:
  assumes "5 \<le> i" "i + 6 \<le> length data"
  shows "sg_point data coeffs_11 (Fin 429) 5 (int i) = Some (kernel_11_convolution data i)"
proof -
  define L where "L = map (\<lambda>j. dmul (coeffs_11 ! nat (j + 5)) (data ! nat (int i + j))) [-5..5]"
  define R where "R = map (\<lambda>k. dmul (Fin (kernel_11 ! k))
                          (data ! nat (reflect_index (int (length data)) (int i + int k - 5)))) [0..<11]"
  have "\<forall>j\<in>set [-5..5]. 0 \<le> j + 5 \<and> j + 5 < int (length coeffs_11) \<and> 0 \<le> int i + j \<and> int i + j < int (length data)"
    using assms by (auto simp: coeffs_11_def)
  from sg_window_foldl [OF this]
  have 1: "sg_window data coeffs_11 5 (int i) [-5..5] (Fin 0) = Some (foldl dadd (Fin 0) L)"
    unfolding L_def .
  have 2: "L = R"
    unfolding L_def R_def upto_m5_5 upt_0_11 using assms
    by (simp add: reflect_index_id coeffs_11_def kernel_11_def add.commute)
  have "sg_point data coeffs_11 (Fin 429) 5 (int i) = Some (ddiv (foldl dadd (Fin 0) L) (Fin 429))"
    unfolding sg_point_def 1 by simp
  also have "ddiv (foldl dadd (Fin 0) L) (Fin 429) = kernel_11_convolution data i"
    unfolding kernel_11_convolution_def R_def [symmetric] 2 ..
  finally show ?thesis .
qed

section \<open>Facts about spur removal\<close>

lemma dle_not_dgt: "dle x t \<Longrightarrow> \<not> dgt x t"
  by (cases x; cases t) (auto simp: dgt_def)

lemma dgt_NaN [simp]: "\<not> dgt NaN t" "\<not> dgt x NaN"
  by (cases t; cases x; simp add: dgt_def)+

lemma dsub_isnan: "isnan a \<or> isnan b \<Longrightarrow> dsub a b = NaN"
  by (cases a; cases b) auto

lemma spur_test_eq:
  assumes "0 \<le> i" "i < int (length sourceRef)" "length baseline = length sourceRef"
  shows "spur_test sourceRef baseline i =
     Some (dgt (dsub (sourceRef ! nat i) (baseline ! nat i)) SPUR_THRESHOLD)"
  using assms by (auto simp: spur_test_def dsub_isnan)

lemma mark_spurs_none:
  assumes "\<forall>i\<in>set is. spur_test sourceRef baseline i = Some False"
  shows "mark_spurs sourceRef baseline is isSpur = Some isSpur"
  using assms by (induction "is") auto

lemma pass1_no_spurs:
  assumes "\<forall>k. 0 \<le> k \<and> k < N \<longrightarrow> vec_at isSpur k = Some False" "0 \<le> i"
  shows "pass1 freq isSpur N i processedMeas = Some processedMeas"
  using assms
proof (induction "nat (N - i)" arbitrary: i)
  case 0
  then have "\<not> i < N" by simp
  then show ?case by (simp add: pass1.simps [of freq isSpur N i])
next
  case (Suc n)
  then have i: "i < N" "0 \<le> i" by auto
  with Suc.prems have s: "vec_at isSpur i = Some False" by simp
  have "n = nat (N - (i + 1))" using Suc.hyps(2) by simp
  from Suc.hyps(1) [OF this Suc.prems(1)] i
  have "pass1 freq isSpur N (i + 1) processedMeas = Some processedMeas" by simp
  with i s show ?case by (simp add: pass1.simps [of freq isSpur N i])
qed

lemma rising_edge_eq:
  assumes "1 \<le> i" "i < int (length currentRef)"
  shows "rising_edge currentRef i =
     Some (dgt (dsub (currentRef ! nat i) (currentRef ! nat (i - 1))) SPUR_THRESHOLD)"
  using assms by (auto simp: rising_edge_def dsub_isnan)

lemma falling_edge_eq:
  assumes "1 \<le> j" "j < int (length currentRef)"
  shows "falling_edge currentRef j =
     Some (dgt (dsub (currentRef ! nat (j - 1)) (currentRef ! nat j)) SPUR_THRESHOLD)"
  using assms by (auto simp: falling_edge_def dsub_isnan)

lemma pass2_no_edges:
  assumes "\<forall>k. i \<le> k \<and> k < N - 1 \<longrightarrow> rising_edge currentRef k = Some False"
  shows "pass2 freq currentRef N i finalMeas = Some finalMeas"
  using assms
proof (induction "nat (N - 1 - i)" arbitrary: i)
  case 0
  then have "\<not> i < N - 1" by simp
  then show ?case by (simp add: pass2.simps [of freq currentRef N i])
next
  case (Suc n)
  then have i: "i < N - 1" by auto
  with Suc.prems have s: "rising_edge currentRef i = Some False" by simp
  have "n = nat (N - 1 - (i + 1))" using Suc.hyps(2) by simp
  from Suc.hyps(1) [OF this] Suc.prems
  have "pass2 freq currentRef N (i + 1) finalMeas = Some finalMeas" by simp
  with i s show ?case by (simp add: pass2.simps [of freq currentRef N i])
qed

lemma find_falling_none:
  assumes "\<forall>k. j \<le> k \<and> k < N \<longrightarrow> falling_edge currentRef k = Some False" "j \<le> N"
  shows "find_falling currentRef N j = Some N"
  using assms
proof (induction "nat (N - j)" arbitrary: j)
  case 0
  then have "j = N" by simp
  then show ?case by (simp add: find_falling.simps [of currentRef N N])
next
  case (Suc n)
  then have j: "j < N" by auto
  with Suc.prems have s: "falling_edge currentRef j = Some False" by simp
  have "n = nat (N - (j + 1))" using Suc.hyps(2) by simp
  from Suc.hyps(1) [OF this] Suc.prems j
  have "find_falling currentRef N (j + 1) = Some N" by simp
  with j s show ?case by (simp add: find_falling.simps [of currentRef N j])
qed

lemma removeSpurs_unchanged:
  assumes b: "rollingMedian sourceRef DEFAULT_SPUR_WINDOW_SIZE = Some baseline"
    and le: "\<forall>i<length sourceRef.
               dle (dsub (sourceRef ! i) (baseline ! i)) SPUR_THRESHOLD"
  shows "mark_spurs sourceRef baseline [0..int (length sourceRef) - 1]
           (replicate (length sourceRef) False) = Some (replicate (length sourceRef) False)"
    and "pass1 freq (replicate (length sourceRef) False) (int (length sourceRef)) 0 sourceMeas
           = Some sourceMeas"
    and "(\<forall>i. 1 \<le> i \<and> i + 1 < length sourceRef \<longrightarrow>
            \<not> dgt (dsub (sourceRef ! i) (sourceRef ! (i - 1))) SPUR_THRESHOLD)
         \<Longrightarrow> removeSpurs freq sourceRef sourceMeas = Some sourceMeas"
proof -
  let ?N = "int (length sourceRef)"
  let ?F = "replicate (length sourceRef) False"
  from medianFilter_total [of sourceRef DEFAULT_SPUR_WINDOW_SIZE] b
  have lb: "length baseline = length sourceRef" by (auto simp: rollingMedian_def)
  have "\<forall>i\<in>set [0..?N - 1]. spur_test sourceRef baseline i = Some False"
  proof
    fix i assume "i \<in> set [0..?N - 1]"
    then have i: "0 \<le> i" "i < ?N" by auto
    then have "nat i < length sourceRef" by simp
    with le have "\<not> dgt (dsub (sourceRef ! nat i) (baseline ! nat i)) SPUR_THRESHOLD"
      using dle_not_dgt by blast
    with spur_test_eq [OF i lb] show "spur_test sourceRef baseline i = Some False" by simp
  qed
  from mark_spurs_none [OF this]
  show m: "mark_spurs sourceRef baseline [0..?N - 1] ?F = Some ?F" .
  have "\<forall>k. 0 \<le> k \<and> k < ?N \<longrightarrow> vec_at ?F k = Some False"
  proof (intro allI impI)
    fix k :: int assume "0 \<le> k \<and> k < ?N"
    then have "nat k < length sourceRef" "0 \<le> k" "k < int (length ?F)" by auto
    then show "vec_at ?F k = Some False" by simp
  qed
  from pass1_no_spurs [OF this]
  show p1: "pass1 freq ?F ?N 0 sourceMeas = Some sourceMeas" by simp
  assume nr: "\<forall>i. 1 \<le> i \<and> i + 1 < length sourceRef \<longrightarrow>
            \<not> dgt (dsub (sourceRef ! i) (sourceRef ! (i - 1))) SPUR_THRESHOLD"
  have "\<forall>k. 1 \<le> k \<and> k < ?N - 1 \<longrightarrow> rising_edge sourceRef k = Some False"
  proof (intro allI impI)
    fix k :: int assume k: "1 \<le> k \<and> k < ?N - 1"
    then have "1 \<le> nat k \<and> nat k + 1 < length sourceRef" by auto
    with nr have "\<not> dgt (dsub (sourceRef ! nat k) (sourceRef ! (nat k - 1))) SPUR_THRESHOLD"
      by blast
    moreover have "nat k - 1 = nat (k - 1)" using k by simp
    ultimately show "rising_edge sourceRef k = Some False"
      using rising_edge_eq [of k sourceRef] k by simp
  qed
  from pass2_no_edges [OF this]
  have p2: "pass2 freq sourceRef ?N 1 sourceMeas = Some sourceMeas" .
  show "removeSpurs freq sourceRef sourceMeas = Some sourceMeas"
    using b m p1 p2 by (simp add: removeSpurs_def)
qed

lemma assign_loop_const:
  assumes "0 \<le> a" "b < int (length out)" "a \<le> b + 1"
  shows "assign_loop (\<lambda>k. Some v) [a..b] out
           = Some (take (nat a) out @ replicate (nat (b + 1 - a)) v @ drop (nat (b + 1)) out)"
proof -
  have "\<forall>i\<in>set [a..b]. 0 \<le> i \<and> i < int (length out) \<and> (\<lambda>k. Some v) i = Some ((\<lambda>k. v) i)"
    using assms by auto
  from assign_loop_Some [OF this] obtain r where
    r: "assign_loop (\<lambda>k. Some v) [a..b] out = Some r" "length r = length out"
       "\<forall>k<length out. r ! k = (if int k \<in> set [a..b] then v else out ! k)" by blast
  have "r = take (nat a) out @ replicate (nat (b + 1 - a)) v @ drop (nat (b + 1)) out"
  proof (rule nth_equalityI)
    show "length r = length (take (nat a) out @ replicate (nat (b + 1 - a)) v @ drop (nat (b + 1)) out)"
      using assms r(2) by auto
  next
    fix k assume "k < length r"
    then have k: "k < length out" using r(2) by simp
    consider "int k < a" | "a \<le> int k" "int k \<le> b" | "b < int k" by linarith
    then show "r ! k = (take (nat a) out @ replicate (nat (b + 1 - a)) v @ drop (nat (b + 1)) out) ! k"
    proof cases
      case 1
      then have "k < nat a" by simp
      with 1 k r(3) assms show ?thesis by (simp add: nth_append)
    next
      case 2
      then have "\<not> k < nat a" "k - nat a < nat (b + 1 - a)" using assms by auto
      with 2 k r(3) assms show ?thesis by (simp add: nth_append)
    next
      case 3
      define A where "A = nat a"
      define B where "B = nat (b + 1 - a)"
      define C where "C = nat (b + 1)"
      have abc: "A + B = C" "C \<le> k" "A \<le> length out"
        using 3 assms k by (auto simp: A_def B_def C_def)
      then have nk: "\<not> k < A" "\<not> k - A < B" by auto
      have "(take A out @ replicate B v @ drop C out) ! k = (replicate B v @ drop C out) ! (k - A)"
        using abc nk by (simp add: nth_append)
      also have "\<dots> = drop C out ! (k - A - B)" using nk by (simp add: nth_append)
      also have "k - A - B = k - C" using abc by simp
      also have "drop C out ! (k - C) = out ! k" using abc k by simp
      finally have "(take A out @ replicate B v @ drop C out) ! k = out ! k" .
      moreover have "r ! k = out ! k" using r(3) k 3 by simp
      ultimately show ?thesis unfolding A_def B_def C_def by simp
    qed
  qed
  with r(1) show ?thesis by simp
qed

lemma pass2_fill_at_start:
  assumes "N = int (length currentRef)" and "length finalMeas = length currentRef"
    and "1 \<le> start" and "start < N - 1"
    and "\<not> isnan (currentRef ! nat start)" and "\<not> isnan (currentRef ! nat (start - 1))"
    and "dgt (dsub (currentRef ! nat start) (currentRef ! nat (start - 1))) SPUR_THRESHOLD"
    and "\<forall>j. start < j \<and> j < N \<longrightarrow>
           \<not> dgt (dsub (currentRef ! nat (j - 1)) (currentRef ! nat j)) SPUR_THRESHOLD"
  shows "pass2 freq currentRef N start finalMeas =
           Some (take (nat start) finalMeas @
                 replicate (nat (N - start)) (finalMeas ! nat (start - 1)))"
proof -
  have r: "rising_edge currentRef start = Some True"
    using rising_edge_eq [of start currentRef] assms by simp
  have "\<forall>k. start + 1 \<le> k \<and> k < N \<longrightarrow> falling_edge currentRef k = Some False"
  proof (intro allI impI)
    fix k assume k: "start + 1 \<le> k \<and> k < N"
    with assms(8) have "\<not> dgt (dsub (currentRef ! nat (k - 1)) (currentRef ! nat k)) SPUR_THRESHOLD"
      by simp
    with falling_edge_eq [of k currentRef] k assms(1,3)
    show "falling_edge currentRef k = Some False" by simp
  qed
  from find_falling_none [OF this] assms(4)
  have f: "find_falling currentRef N (start + 1) = Some N" by simp
  let ?v = "finalMeas ! nat (start - 1)"
  let ?out = "take (nat start) finalMeas @ replicate (nat (N - start)) ?v"
  have lv: "vec_at finalMeas (start - 1) = Some ?v" using assms(1-4) by simp
  have "assign_loop (\<lambda>k. Some ?v) [start..N - 1] finalMeas
      = Some (take (nat start) finalMeas @ replicate (nat (N - 1 + 1 - start)) ?v
              @ drop (nat (N - 1 + 1)) finalMeas)"
    using assms(1-4) by (intro assign_loop_const) auto
  then have a: "assign_loop (\<lambda>k. Some ?v) [start..N - 1] finalMeas = Some ?out"
    using assms(1,2) by simp
  have reg: "pass2_region freq currentRef N start finalMeas = Some (N, ?out)"
    using f lv a by (simp add: pass2_region_def)
  have "pass2 freq currentRef N N ?out = Some ?out"
    by (simp add: pass2.simps [of freq currentRef N N])
  with r reg assms(4) show ?thesis
    by (simp add: pass2.simps [of freq currentRef N start])
qed

lemma pass2_skip_to:
  assumes "\<forall>k. i \<le> k \<and> k < start \<longrightarrow> rising_edge currentRef k = Some False"
    and "i \<le> start" and "start \<le> N - 1"
  shows "pass2 freq currentRef N i finalMeas = pass2 freq currentRef N start finalMeas"
  using assms(1,2)
proof (induction "nat (start - i)" arbitrary: i)
  case 0
  then have "i = start" by simp
  then show ?case by simp
next
  case (Suc n)
  then have i: "i < start" by auto
  with Suc.prems have s: "rising_edge currentRef i = Some False" by simp
  have "n = nat (start - (i + 1))" using Suc.hyps(2) by simp
  from Suc.hyps(1) [OF this] Suc.prems i
  have "pass2 freq currentRef N (i + 1) finalMeas = pass2 freq currentRef N start finalMeas"
    by simp
  with i s assms(3) show ?case by (simp add: pass2.simps [of freq currentRef N i])
qed

section \<open>Facts about binary64 arithmetic\<close>

lemma pow2_powi: "pow2 n = 2 powi n"
  by (simp add: pow2_def power_int_def power_one_over inverse_eq_divide)

lemma pow2_pos [simp]: "0 < pow2 n"
  by (simp add: pow2_powi)

lemma pow2_add: "pow2 (m + n) = pow2 m * pow2 n"
  by (simp add: pow2_powi power_int_add)

lemma pow2_numeral: "pow2 (numeral n) = 2 ^ numeral n" "pow2 0 = 1" "pow2 1 = 2"
  by (simp_all add: pow2_def)

lemma pow2_Suc: "pow2 (k + 1) = 2 * pow2 k"
  unfolding pow2_add pow2_numeral by simp

lemma pow2_pred: "pow2 (k - 1) = pow2 k / 2"
  using pow2_Suc [of "k - 1"] by simp

lemma pow2_mono: "m \<le> n \<Longrightarrow> pow2 m \<le> pow2 n"
  by (simp add: pow2_powi power_int_increasing)

lemma pow2_strict_mono: "m < n \<Longrightarrow> pow2 m < pow2 n"
  by (simp add: pow2_powi power_int_strict_increasing)

lemma pow2_less_iff [simp]: "pow2 m < pow2 n \<longleftrightarrow> m < n"
  using pow2_mono [of n m] pow2_strict_mono [of m n] by (cases "m < n") auto

lemma pow2_le_iff [simp]: "pow2 m \<le> pow2 n \<longleftrightarrow> m \<le> n"
  unfolding not_less [symmetric] by simp

lemma pow2_neq0 [simp]: "pow2 n \<noteq> 0"
  by (metis pow2_pos less_irrefl)

lemma pow2_nat: "0 \<le> n \<Longrightarrow> pow2 n = of_int (2 ^ nat n)"
  by (simp add: pow2_def)

text \<open>\<open>ilog2\<close> is the binary exponent, and the only one.\<close>

lemma ilog2_bounds:
  "0 < a \<Longrightarrow> pow2 (ilog2 a) \<le> a \<and> a < pow2 (ilog2 a + 1)"
proof (induction a rule: ilog2.induct)
  case (1 a)
  show ?case
  proof (cases "2 \<le> a")
    case True
    define i where "i = ilog2 (a / 2)"
    from True 1 have "pow2 i \<le> a / 2 \<and> a / 2 < pow2 (i + 1)" by (simp add: i_def)
    then have "2 * pow2 i \<le> a \<and> a < 2 * (2 * pow2 i)" unfolding pow2_Suc by simp
    then have "pow2 (i + 1) \<le> a \<and> a < pow2 (i + 1 + 1)" unfolding pow2_Suc .
    moreover from True 1 have "ilog2 a = i + 1" by (simp add: ilog2.simps [of a] i_def)
    ultimately show ?thesis by simp
  next
    case False
    show ?thesis
    proof (cases "a < 1")
      case True
      define i where "i = ilog2 (a * 2)"
      from True False 1 have "pow2 i \<le> a * 2 \<and> a * 2 < pow2 (i + 1)" by (simp add: i_def)
      then have "pow2 i / 2 \<le> a \<and> a < pow2 i" unfolding pow2_Suc by simp
      then have "pow2 (i - 1) \<le> a \<and> a < pow2 (i - 1 + 1)" unfolding pow2_pred by simp
      moreover from True False 1 have "ilog2 a = i - 1" by (simp add: ilog2.simps [of a] i_def)
      ultimately show ?thesis by simp
    next
      case b: False
      with False 1 have "ilog2 a = 0" by (simp add: ilog2.simps [of a])
      with b False show ?thesis by (simp add: pow2_numeral)
    qed
  qed
qed

lemma ilog2_unique:
  assumes "pow2 k \<le> a" and "a < pow2 (k + 1)"
  shows "ilog2 a = k"
proof -
  have "0 < pow2 k" by simp
  with assms(1) have a: "0 < a" by linarith
  from ilog2_bounds [OF a] assms have "pow2 (ilog2 a) < pow2 (k + 1)" "pow2 k < pow2 (ilog2 a + 1)"
    by linarith+
  then show ?thesis by simp
qed

lemma round_half_even_of_int [simp]: "round_half_even (of_int n) = n"
  by (simp add: round_half_even_def)

lemma round_half_even_numeral [simp]: "round_half_even (numeral n) = numeral n"
  using round_half_even_of_int [of "numeral n"] by simp

lemma round_half_even_floor:
  "\<lfloor>r\<rfloor> \<le> round_half_even r" "round_half_even r \<le> \<lfloor>r\<rfloor> + 1"
  by (simp_all add: round_half_even_def Let_def)

lemma round_half_even_less_even:
  assumes "even N"
  shows "round_half_even q < N \<longleftrightarrow> q < of_int N - 1 / 2"
proof
  assume q: "q < of_int N - 1 / 2"
  then have "q < of_int N" by simp
  then have f: "\<lfloor>q\<rfloor> \<le> N - 1" by (simp add: floor_less_iff)
  show "round_half_even q < N"
  proof (cases "\<lfloor>q\<rfloor> = N - 1")
    case True
    with q have "q - of_int \<lfloor>q\<rfloor> < 1 / 2" by simp
    with True show ?thesis by (simp add: round_half_even_def Let_def)
  next
    case False
    with f round_half_even_floor(2) [of q] show ?thesis by linarith
  qed
next
  assume r: "round_half_even q < N"
  show "q < of_int N - 1 / 2"
  proof (rule ccontr)
    assume "\<not> q < of_int N - 1 / 2"
    then have q: "of_int N - 1 / 2 \<le> q" by simp
    then have "of_int (N - 1) \<le> q" by simp
    then have f: "N - 1 \<le> \<lfloor>q\<rfloor>" by (simp only: le_floor_iff)
    from r round_half_even_floor(1) [of q] have "\<lfloor>q\<rfloor> < N" by linarith
    with f have e: "\<lfloor>q\<rfloor> = N - 1" by linarith
    with q have d: "1 / 2 \<le> q - of_int \<lfloor>q\<rfloor>" by simp
    from assms have "(N - 1) mod 2 \<noteq> 0" by presburger
    with e d have "round_half_even q = N" by (simp add: round_half_even_def Let_def)
    with r show False by simp
  qed
qed

lemma round_half_even_mono:
  assumes "r \<le> s"
  shows "round_half_even r \<le> round_half_even s"
proof (cases "\<lfloor>r\<rfloor> = \<lfloor>s\<rfloor>")
  case True
  with assms have "r - of_int \<lfloor>r\<rfloor> \<le> s - of_int \<lfloor>s\<rfloor>" by simp
  with True show ?thesis by (auto simp: round_half_even_def Let_def)
next
  case False
  with assms floor_mono [of r s] have "\<lfloor>r\<rfloor> + 1 \<le> \<lfloor>s\<rfloor>" by linarith
  with round_half_even_floor(2) [of r] round_half_even_floor(1) [of s] show ?thesis by linarith
qed

lemma round_half_even_ge:
  "of_int n \<le> q \<Longrightarrow> n \<le> round_half_even q"
  using round_half_even_mono [of "of_int n" q] by simp

lemma b64_round_neg: "b64_round (- x) = b64_neg (b64_round x)"
  by (simp add: b64_round_def Let_def)

text \<open>
  The rounding at a real of known exponent, and at a real that is a double: an integer of
  fewer than 54 bits times a power of two not below \<open>2\<^sup>-\<^sup>1\<^sup>0\<^sup>7\<^sup>4\<close>.
\<close>

lemma b64_round_pos:
  assumes "pow2 k \<le> x" and "x < pow2 (k + 1)"
  shows "b64_round x =
     (let u = pow2 (max k (- 1022) - 52);
          r = of_int (round_half_even (x / u)) * u
      in if r \<ge> 2 ^ 1024 then PInf else Num r)"
proof -
  have "0 < pow2 k" by simp
  with assms(1) have x: "0 < x" by linarith
  with ilog2_unique [OF assms] show ?thesis by (simp add: b64_round_def Let_def)
qed

lemma b64_round_exact_pos:
  assumes x: "x = of_int m * pow2 k" and m: "0 < m" "m < 2 ^ 53" and k: "- 1074 \<le> k"
    and fin: "x < 2 ^ 1024"
  shows "b64_round x = Num x"
proof -
  from m have xpos: "0 < x" unfolding x by (simp add: zero_less_mult_iff)
  define e where "e = max (ilog2 x) (- 1022)"
  have ek: "e \<le> k + 52"
  proof (cases "ilog2 x \<le> - 1022")
    case True
    with k show ?thesis by (simp add: e_def)
  next
    case False
    then have e: "e = ilog2 x" by (simp add: e_def)
    from ilog2_bounds [OF xpos] have "pow2 e \<le> of_int m * pow2 k" by (simp add: e x)
    also have "\<dots> < of_int (2 ^ 53) * pow2 k" using m by simp
    also have "\<dots> = pow2 (k + 53)" unfolding pow2_add pow2_numeral by simp
    finally show ?thesis by simp
  qed
  define j where "j = k + 52 - e"
  from ek have j: "0 \<le> j" by (simp add: j_def)
  have "pow2 k = pow2 j * pow2 (e - 52)" by (simp add: pow2_add [symmetric] j_def)
  then have "x / pow2 (e - 52) = of_int m * pow2 j" by (simp add: x)
  also have "\<dots> = of_int (m * 2 ^ nat j)" using j by (simp add: pow2_nat)
  finally have q: "x / pow2 (e - 52) = of_int (m * 2 ^ nat j)" .
  have "of_int (round_half_even (x / pow2 (e - 52))) * pow2 (e - 52) = x"
    unfolding q round_half_even_of_int unfolding q [symmetric] by simp
  with xpos fin show ?thesis
    unfolding b64_round_def e_def [symmetric] by (simp add: Let_def e_def [symmetric])
qed

lemma b64_round_0 [simp]: "b64_round 0 = Num 0"
  by (simp add: b64_round_def)

lemma b64_round_exact:
  assumes "x = of_int m * pow2 k" and "\<bar>m\<bar> < 2 ^ 53" and "- 1074 \<le> k" and "\<bar>x\<bar> < 2 ^ 1024"
  shows "b64_round x = Num x"
proof -
  consider "m = 0" | "0 < m" | "m < 0" by linarith
  then show ?thesis
  proof cases
    case 1
    with assms(1) show ?thesis by simp
  next
    case 2
    with assms have "x = of_int m * pow2 k" "0 < m" "m < 2 ^ 53" "- 1074 \<le> k" by simp_all
    moreover from assms(4) have "x < 2 ^ 1024" by simp
    ultimately show ?thesis by (rule b64_round_exact_pos)
  next
    case 3
    with assms have "- x = of_int (- m) * pow2 k" "0 < - m" "- m < 2 ^ 53" "- 1074 \<le> k" by simp_all
    moreover from assms(4) have "- x < 2 ^ 1024" by simp
    ultimately have "b64_round (- x) = Num (- x)" by (rule b64_round_exact_pos)
    then have "b64_neg (b64_round x) = Num (- x)" by (simp add: b64_round_neg)
    then show ?thesis by (cases "b64_round x") simp_all
  qed
qed

lemma b64_round_int:
  "\<bar>n\<bar> < 2 ^ 53 \<Longrightarrow> b64_round (of_int n) = Num (of_int n)"
  by (rule b64_round_exact [of _ n 0]) (simp_all add: pow2_numeral)

lemma round_half_even_nonneg: "0 \<le> q \<Longrightarrow> 0 \<le> round_half_even q"
  using round_half_even_ge [of 0 q] by simp

text \<open>
  The rounded value is below \<open>2\<^sup>-\<^sup>5\<^sup>2\<close> in magnitude exactly if the real is below the midpoint
  of \<open>2\<^sup>-\<^sup>5\<^sup>2\<close> and the double before it.
\<close>

lemma b64_round_guard:
  "b64_lt (b64_abs (b64_round d)) B64_EPSILON \<longleftrightarrow> \<bar>d\<bar> < 1 / 2 ^ 52 - 1 / 2 ^ 106"
proof (cases "d = 0")
  case True
  then show ?thesis by (simp add: B64_EPSILON_def)
next
  case False
  define a where "a = \<bar>d\<bar>"
  define E where "E = ilog2 a"
  define e where "e = max E (- 1022)"
  define u where "u = pow2 (e - 52)"
  define n where "n = round_half_even (a / u)"
  define r where "r = of_int n * u"
  from False have a: "0 < a" by (simp add: a_def)
  have u: "0 < u" by (simp add: u_def)
  from a u have "0 \<le> a / u" by simp
  then have n: "0 \<le> n" unfolding n_def by (rule round_half_even_nonneg)
  with u have r: "0 \<le> r" by (simp add: r_def)
  have eps: "(1 / 2 ^ 52 :: real) = pow2 (- 52)" by (simp add: pow2_def)
  have "b64_round d = (if r \<ge> 2 ^ 1024 then (if d < 0 then NInf else PInf)
                       else Num (if d < 0 then - r else r))"
    using False
    by (simp add: b64_round_def Let_def a_def [symmetric] E_def [symmetric] e_def [symmetric]
        u_def [symmetric] n_def [symmetric] r_def [symmetric])
  with r have g: "b64_lt (b64_abs (b64_round d)) B64_EPSILON \<longleftrightarrow> r < 2 ^ 1024 \<and> r < 1 / 2 ^ 52"
    by (auto simp: B64_EPSILON_def)
  have big: "(1 / 2 ^ 52 :: real) < 2 ^ 1024"
  proof -
    have "(1 / 2 ^ 52 :: real) \<le> 1" by simp
    also have "(1::real) < 2 ^ 1024" by (rule one_less_power) simp_all
    finally show ?thesis .
  qed
  from g big have g': "b64_lt (b64_abs (b64_round d)) B64_EPSILON \<longleftrightarrow> r < pow2 (- 52)"
    unfolding eps by auto
  from ilog2_bounds [OF a] have E: "pow2 E \<le> a" "a < pow2 (E + 1)" by (simp_all add: E_def)
  have "r < pow2 (- 52) \<longleftrightarrow> a < pow2 (- 52) - pow2 (- 106)"
  proof (cases "pow2 (- 52) \<le> a")
    case True
    with E(2) have "pow2 (- 52) < pow2 (E + 1)" by linarith
    then have E52: "- 52 \<le> E" by simp
    then have e: "e = E" by (simp add: e_def)
    have pE: "pow2 E = pow2 52 * pow2 (E - 52)" by (simp add: pow2_add [symmetric])
    with E(1) have "pow2 52 * u \<le> a" by (simp add: u_def e)
    with u have "pow2 52 \<le> a / u" by (simp add: pos_le_divide_eq)
    then have "of_int (2 ^ 52) \<le> a / u" by (simp add: pow2_numeral)
    then have "2 ^ 52 \<le> n" unfolding n_def by (rule round_half_even_ge)
    then have "(of_int (2 ^ 52) :: real) \<le> of_int n" by (simp only: of_int_le_iff)
    with u have "of_int (2 ^ 52) * u \<le> r" unfolding r_def by (simp only: mult_le_cancel_right_pos)
    also have "of_int (2 ^ 52) * u = pow2 E"
      using pE unfolding u_def e by (simp add: pow2_numeral)
    finally have "pow2 (- 52) \<le> r" using E52 pow2_mono [of "- 52" E] by linarith
    moreover have "0 < pow2 (- 106)" by simp
    ultimately show ?thesis using True by linarith
  next
    case False
    then have lt: "a < pow2 (- 52)" by simp
    with E(1) have "pow2 E < pow2 (- 52)" by linarith
    then have E53: "E \<le> - 53" by simp
    then have e53: "e \<le> - 53" and Ee: "E \<le> e" by (simp_all add: e_def)
    define N :: int where "N = 2 ^ nat (- e)"
    from e53 have "0 < nat (- e)" by simp
    then have evenN: "even N" unfolding N_def by simp
    have Nu: "of_int N * u = pow2 (- 52)"
    proof -
      from e53 have "of_int N = pow2 (- e)" by (simp add: N_def pow2_nat)
      then show ?thesis by (simp add: u_def pow2_add [symmetric])
    qed
    have "r < pow2 (- 52) \<longleftrightarrow> of_int n * u < of_int N * u" by (simp add: r_def Nu)
    also have "\<dots> \<longleftrightarrow> n < N" using u by (simp only: mult_less_cancel_right_pos of_int_less_iff)
    also have "\<dots> \<longleftrightarrow> a / u < of_int N - 1 / 2"
      unfolding n_def by (rule round_half_even_less_even [OF evenN])
    also have "\<dots> \<longleftrightarrow> a < (of_int N - 1 / 2) * u" using u by (simp only: pos_divide_less_eq)
    also have "(of_int N - 1 / 2) * u = pow2 (- 52) - u / 2" unfolding left_diff_distrib Nu by simp
    also have "u / 2 = pow2 (e - 53)" using pow2_pred [of "e - 52"] by (simp add: u_def)
    finally have main: "r < pow2 (- 52) \<longleftrightarrow> a < pow2 (- 52) - pow2 (e - 53)" .
    show ?thesis
    proof (cases "e = - 53")
      case True
      with main show ?thesis by simp
    next
      case False
      with e53 have e54: "e \<le> - 54" by simp
      with Ee have "E + 1 \<le> - 53" by simp
      with E(2) pow2_mono [of "E + 1" "- 53"] have a53: "a < pow2 (- 53)" by linarith
      from e54 pow2_mono [of "e - 53" "- 107"] have "pow2 (e - 53) \<le> pow2 (- 107)" by simp
      moreover have "pow2 (- 53) \<le> pow2 (- 52) - pow2 (- 107)" by (simp add: pow2_def)
      moreover have "pow2 (- 53) \<le> pow2 (- 52) - pow2 (- 106)" by (simp add: pow2_def)
      ultimately show ?thesis using main a53 by linarith
    qed
  qed
  also have "pow2 (- 52) - pow2 (- 106) = (1 / 2 ^ 52 - 1 / 2 ^ 106 :: real)" by (simp add: pow2_def)
  finally show ?thesis using g' by (simp add: a_def)
qed

lemma b64_sub_Num [simp]: "b64_sub (Num a) (Num b) = b64_round (a - b)"
  by (simp add: b64_sub_def)

lemma b64_guard_nonzero:
  "\<not> b64_lt (b64_abs d) B64_EPSILON \<Longrightarrow> d \<noteq> Num 0"
  by (auto simp: B64_EPSILON_def)

text \<open>Values of the rounding.\<close>

lemma b64_round_below_epsilon: "b64_round (1 / 2 ^ 52 - 1 / 2 ^ 110) = Num (1 / 2 ^ 52)"
proof -
  have "pow2 (- 53) \<le> (1 / 2 ^ 52 - 1 / 2 ^ 110 :: real)"
    and "(1 / 2 ^ 52 - 1 / 2 ^ 110 :: real) < pow2 (- 53 + 1)"
    by (simp_all add: pow2_def)
  from b64_round_pos [OF this] show ?thesis
    by (simp add: pow2_def round_half_even_def Let_def)
qed

lemma b64_round_below_half_epsilon: "b64_round (1 / 2 ^ 53 - 1 / 2 ^ 110) = Num (1 / 2 ^ 53)"
proof -
  have "pow2 (- 54) \<le> (1 / 2 ^ 53 - 1 / 2 ^ 110 :: real)"
    and "(1 / 2 ^ 53 - 1 / 2 ^ 110 :: real) < pow2 (- 54 + 1)"
    by (simp_all add: pow2_def)
  from b64_round_pos [OF this] show ?thesis
    by (simp add: pow2_def round_half_even_def Let_def)
qed

lemma b64_round_overflow: "b64_round (- (2 ^ 1024)) = NInf"
proof -
  have "pow2 1024 \<le> (2 ^ 1024 :: real)" and "(2 ^ 1024 :: real) < pow2 (1024 + 1)"
    by (simp_all add: pow2_def)
  from b64_round_pos [OF this] have "b64_round (2 ^ 1024) = PInf"
    by (simp add: pow2_def Let_def)
  then show ?thesis by (simp add: b64_round_neg)
qed

lemma b64_round_values:
  "b64_round 5 = Num 5" "b64_round 10 = Num 10" "b64_round 1 = Num 1"
  "b64_round (1 / 2) = Num (1 / 2)" "b64_round (10 / 2 ^ 53) = Num (10 / 2 ^ 53)"
  using b64_round_int [of 5] b64_round_int [of 10] b64_round_int [of 1]
    b64_round_exact [of "1 / 2" 1 "- 1"] b64_round_exact [of "10 / 2 ^ 53" 10 "- 53"]
  by (simp_all add: pow2_def)

section \<open>Facts about the spot noise\<close>

lemma b64_lt_irrefl [simp]: "\<not> b64_lt a a"
  by (cases a) simp_all

lemma b64_lt_trans: "b64_lt a b \<Longrightarrow> b64_lt b c \<Longrightarrow> b64_lt a c"
  by (cases a; cases b; cases c) simp_all

lemma b64_lt_asym: "b64_lt a b \<Longrightarrow> \<not> b64_lt b a"
  using b64_lt_trans [of a b a] by auto

lemma b64_abs_lt_cases:
  assumes "b64_lt (b64_abs d) m"
  obtains x where "b64_abs d = Num x" and "0 \<le> x"
  using assms by (cases d; cases m) simp_all

lemma b64_lt_B64_MAX: "x \<le> 2 ^ 1023 \<Longrightarrow> b64_lt (Num x) B64_MAX"
proof -
  assume "x \<le> 2 ^ 1023"
  moreover have "(2 ^ 1023 :: real) < (2 - 1 / 2 ^ 52) * 2 ^ 1023" by simp
  ultimately show ?thesis unfolding B64_MAX_def by simp
qed

lemma b64_round_tenth: "b64_round (1 / 10) = Num (3602879701896397 / 2 ^ 55)"
proof -
  have "pow2 (- 4) \<le> (1 / 10 :: real)" and "(1 / 10 :: real) < pow2 (- 4 + 1)"
    by (simp_all add: pow2_def)
  from b64_round_pos [OF this] show ?thesis
    by (simp add: pow2_def round_half_even_def Let_def)
qed

lemma FREQ_POINTS_eq:
  "FREQ_POINTS =
     [Num (3602879701896397 / 2 ^ 55), Num 1, Num 10, Num 100, Num 1000, Num 10000,
      Num 100000, Num 1000000, Num 10000000]"
  using b64_round_int [of 1] b64_round_int [of 10] b64_round_int [of 100]
    b64_round_int [of 1000] b64_round_int [of 10000] b64_round_int [of 100000]
    b64_round_int [of 1000000] b64_round_int [of 10000000]
  by (simp add: FREQ_POINTS_def b64_round_tenth)

lemma round_half_even_0_1 [simp]: "round_half_even 0 = 0" "round_half_even 1 = 1"
  using round_half_even_of_int [of 0] round_half_even_of_int [of 1] by simp_all

lemma digits_of_small:
  "digits_of 0 = ''0''" "digits_of (Suc 0) = ''1''" "digits_of 10 = ''10''"
  "digits_of 100 = ''100''"
proof -
  show 0: "digits_of 0 = ''0''" by (subst digits_of.simps) simp
  show 1: "digits_of (Suc 0) = ''1''" by (subst digits_of.simps) simp
  show 10: "digits_of 10 = ''10''" by (subst digits_of.simps) (simp add: 1)
  show "digits_of 100 = ''100''" by (subst digits_of.simps) (simp add: 10)
qed

lemma FREQ_POINT_INFOS_eq:
  "FREQ_POINT_INFOS =
     [\<lparr>freq_value = Num (3602879701896397 / 2 ^ 55), displayName = ''0 Hz''\<rparr>,
      \<lparr>freq_value = Num 1, displayName = ''1 Hz''\<rparr>,
      \<lparr>freq_value = Num 10, displayName = ''10 Hz''\<rparr>,
      \<lparr>freq_value = Num 100, displayName = ''100 Hz''\<rparr>,
      \<lparr>freq_value = Num 1000, displayName = ''1 kHz''\<rparr>,
      \<lparr>freq_value = Num 10000, displayName = ''10 kHz''\<rparr>,
      \<lparr>freq_value = Num 100000, displayName = ''100 kHz''\<rparr>,
      \<lparr>freq_value = Num 1000000, displayName = ''1 MHz''\<rparr>,
      \<lparr>freq_value = Num 10000000, displayName = ''10 MHz''\<rparr>]"
proof -
  have r: "round_half_even (3602879701896397 / 2 ^ 55) = 0"
    by (simp add: round_half_even_def Let_def)
  show ?thesis
    unfolding FREQ_POINT_INFOS_def FREQ_POINTS_eq
    using b64_round_int [of 1] b64_round_int [of 10] b64_round_int [of 100] r
    by (simp add: getFreqInfo_def digits_of_small)
qed

lemma distinct_labels: "distinct (map displayName FREQ_POINT_INFOS)"
  unfolding FREQ_POINT_INFOS_eq by simp

lemma spot_noise_point_eq:
  "spot_noise_point q c a b info m =
     (case spot_noise_hit q c a b info of None \<Rightarrow> m | Some p \<Rightarrow> m(displayName info \<mapsto> p))"
  by (simp add: spot_noise_point_def spot_noise_hit_def Let_def split: prod.splits)

lemma fold_spot_other:
  "key \<notin> displayName ` set infos \<Longrightarrow> fold (spot_noise_point q c a b) infos m key = m key"
proof (induction infos arbitrary: m)
  case Nil
  then show ?case by simp
next
  case (Cons x xs)
  then have k: "key \<noteq> displayName x" "key \<notin> displayName ` set xs" by auto
  have "spot_noise_point q c a b x m key = m key"
    using k(1) by (simp add: spot_noise_point_eq split: option.splits)
  with Cons.IH [OF k(2), of "spot_noise_point q c a b x m"] show ?case by simp
qed

lemma fold_spot:
  assumes "distinct (map displayName infos)" "info \<in> set infos"
  shows "fold (spot_noise_point q c a b) infos m (displayName info) =
     (case spot_noise_hit q c a b info of None \<Rightarrow> m (displayName info) | Some p \<Rightarrow> Some p)"
  using assms
proof (induction infos arbitrary: m)
  case Nil
  then show ?case by simp
next
  case (Cons x xs)
  define m' where "m' = spot_noise_point q c a b x m"
  have m': "m' = (case spot_noise_hit q c a b x of None \<Rightarrow> m | Some p \<Rightarrow> m(displayName x \<mapsto> p))"
    unfolding m'_def by (rule spot_noise_point_eq)
  have f: "fold (spot_noise_point q c a b) (x # xs) m = fold (spot_noise_point q c a b) xs m'"
    by (simp add: m'_def)
  show ?case
  proof (cases "info = x")
    case True
    with Cons.prems(1) have "displayName info \<notin> displayName ` set xs" by auto
    from fold_spot_other [OF this]
    have "fold (spot_noise_point q c a b) xs m' (displayName info) = m' (displayName info)" .
    with True show ?thesis unfolding f by (simp add: m' split: option.splits)
  next
    case False
    with Cons.prems have in_xs: "info \<in> set xs" and d: "distinct (map displayName xs)"
      and ne: "displayName x \<noteq> displayName info" by auto
    from Cons.IH [OF d in_xs, of m'] ne show ?thesis
      unfolding f by (simp add: m' split: option.splits)
  qed
qed

lemma calculateSpotNoise_label:
  assumes "find (\<lambda>data. isVisible data \<and> graphMeasured data \<noteq> None
                            \<and> frequencyOffset data \<noteq> []) m_datasets = Some firstVisibleData"
    and "graphMeasured firstVisibleData = Some curve"
    and "info \<in> set FREQ_POINT_INFOS"
  shows "calculateSpotNoise qLn m_datasets xMinView xMaxView (displayName info)
           = spot_noise_hit qLn curve xMinView xMaxView info"
proof -
  from assms(1) have ne: "m_datasets \<noteq> []" by auto
  have "calculateSpotNoise qLn m_datasets xMinView xMaxView
          = fold (spot_noise_point qLn curve xMinView xMaxView) FREQ_POINT_INFOS Map.empty"
    using ne assms(1,2) by (simp add: calculateSpotNoise_def)
  with fold_spot [OF distinct_labels assms(3), of qLn curve xMinView xMaxView Map.empty]
  show ?thesis by (simp split: option.splits)
qed

lemma closest_scan_Cons:
  "closest_scan qLn T ((key, val) # rest) (m, f, n, b) =
     (if b64_lt (log_distance qLn key T) m
      then closest_scan qLn T rest (log_distance qLn key T, key, val, True)
      else closest_scan qLn T rest (m, f, n, b))"
  by (simp add: log_distance_def Let_def)

declare closest_scan.simps(2) [simp del]

text \<open>
  The scan either leaves its state as it was, no sample being nearer than \<open>minDist\<close>, or
  ends at the first of the samples of least distance.
\<close>

lemma closest_scan_char:
  "(closest_scan qLn T curve (m0, f0, n0, b0) = (m0, f0, n0, b0) \<and>
      (\<forall>j<length curve. \<not> b64_lt (log_distance qLn (fst (curve ! j)) T) m0))
   \<or> (\<exists>k<length curve.
        closest_scan qLn T curve (m0, f0, n0, b0)
          = (log_distance qLn (fst (curve ! k)) T, fst (curve ! k), snd (curve ! k), True) \<and>
        b64_lt (log_distance qLn (fst (curve ! k)) T) m0 \<and>
        (\<forall>j<length curve. \<not> b64_lt (log_distance qLn (fst (curve ! j)) T)
                                     (log_distance qLn (fst (curve ! k)) T)) \<and>
        (\<forall>j<k. log_distance qLn (fst (curve ! j)) T \<noteq> log_distance qLn (fst (curve ! k)) T))"
proof (induction curve arbitrary: m0 f0 n0 b0)
  case Nil
  then show ?case by simp
next
  case (Cons s rest)
  obtain key val where s: "s = (key, val)" by (cases s)
  let ?D = "\<lambda>p :: binary64 \<times> binary64. log_distance qLn (fst p) T"
  have Ds: "log_distance qLn key T = ?D s" by (simp add: s)
  note IH = Cons.IH
  have goal_intro:
    "(closest_scan qLn T (s # rest) (m0, f0, n0, b0) = (m0, f0, n0, b0) \<and>
        (\<forall>j<length (s # rest). \<not> b64_lt (?D ((s # rest) ! j)) m0))
     \<or> (\<exists>k<length (s # rest).
          closest_scan qLn T (s # rest) (m0, f0, n0, b0)
            = (?D ((s # rest) ! k), fst ((s # rest) ! k), snd ((s # rest) ! k), True) \<and>
          b64_lt (?D ((s # rest) ! k)) m0 \<and>
          (\<forall>j<length (s # rest). \<not> b64_lt (?D ((s # rest) ! j)) (?D ((s # rest) ! k))) \<and>
          (\<forall>j<k. ?D ((s # rest) ! j) \<noteq> ?D ((s # rest) ! k)))"
  proof (cases "b64_lt (?D s) m0")
    case True
    then have step: "closest_scan qLn T (s # rest) (m0, f0, n0, b0)
        = closest_scan qLn T rest (?D s, key, val, True)"
      by (simp add: s closest_scan_Cons)
    from IH [of "?D s" key val True]
    show ?thesis
    proof
      assume a: "closest_scan qLn T rest (?D s, key, val, True) = (?D s, key, val, True) \<and>
            (\<forall>j<length rest. \<not> b64_lt (?D (rest ! j)) (?D s))"
      have "\<forall>j<length (s # rest). \<not> b64_lt (?D ((s # rest) ! j)) (?D ((s # rest) ! 0))"
      proof (intro allI impI)
        fix j assume "j < length (s # rest)"
        then show "\<not> b64_lt (?D ((s # rest) ! j)) (?D ((s # rest) ! 0))"
          using a by (cases j) auto
      qed
      with a step True have "0 < length (s # rest) \<and>
            closest_scan qLn T (s # rest) (m0, f0, n0, b0)
              = (?D ((s # rest) ! 0), fst ((s # rest) ! 0), snd ((s # rest) ! 0), True) \<and>
            b64_lt (?D ((s # rest) ! 0)) m0 \<and>
            (\<forall>j<length (s # rest). \<not> b64_lt (?D ((s # rest) ! j)) (?D ((s # rest) ! 0))) \<and>
            (\<forall>j<0. ?D ((s # rest) ! j) \<noteq> ?D ((s # rest) ! 0))"
        by (simp add: s)
      then show ?thesis by blast
    next
      assume "\<exists>k<length rest.
            closest_scan qLn T rest (?D s, key, val, True)
              = (?D (rest ! k), fst (rest ! k), snd (rest ! k), True) \<and>
            b64_lt (?D (rest ! k)) (?D s) \<and>
            (\<forall>j<length rest. \<not> b64_lt (?D (rest ! j)) (?D (rest ! k))) \<and>
            (\<forall>j<k. ?D (rest ! j) \<noteq> ?D (rest ! k))"
      then obtain k where k: "k < length rest"
        "closest_scan qLn T rest (?D s, key, val, True)
              = (?D (rest ! k), fst (rest ! k), snd (rest ! k), True)"
        "b64_lt (?D (rest ! k)) (?D s)"
        "\<forall>j<length rest. \<not> b64_lt (?D (rest ! j)) (?D (rest ! k))"
        "\<forall>j<k. ?D (rest ! j) \<noteq> ?D (rest ! k)" by blast
      from k(3) True have lt: "b64_lt (?D (rest ! k)) m0" by (rule b64_lt_trans)
      from k(3) have ns: "\<not> b64_lt (?D s) (?D (rest ! k))" by (rule b64_lt_asym)
      from k(3) have ne: "?D s \<noteq> ?D (rest ! k)" by auto
      have 1: "\<forall>j<length (s # rest). \<not> b64_lt (?D ((s # rest) ! j)) (?D ((s # rest) ! Suc k))"
      proof (intro allI impI)
        fix j assume "j < length (s # rest)"
        then show "\<not> b64_lt (?D ((s # rest) ! j)) (?D ((s # rest) ! Suc k))"
          using ns k(4) by (cases j) auto
      qed
      have 2: "\<forall>j<Suc k. ?D ((s # rest) ! j) \<noteq> ?D ((s # rest) ! Suc k)"
      proof (intro allI impI)
        fix j assume "j < Suc k"
        then show "?D ((s # rest) ! j) \<noteq> ?D ((s # rest) ! Suc k)"
          using ne k(5) by (cases j) auto
      qed
      from k(1,2) lt step 1 2 have "Suc k < length (s # rest) \<and>
            closest_scan qLn T (s # rest) (m0, f0, n0, b0)
              = (?D ((s # rest) ! Suc k), fst ((s # rest) ! Suc k), snd ((s # rest) ! Suc k), True) \<and>
            b64_lt (?D ((s # rest) ! Suc k)) m0 \<and>
            (\<forall>j<length (s # rest). \<not> b64_lt (?D ((s # rest) ! j)) (?D ((s # rest) ! Suc k))) \<and>
            (\<forall>j<Suc k. ?D ((s # rest) ! j) \<noteq> ?D ((s # rest) ! Suc k))"
        by simp
      then show ?thesis by blast
    qed
  next
    case False
    then have step: "closest_scan qLn T (s # rest) (m0, f0, n0, b0)
        = closest_scan qLn T rest (m0, f0, n0, b0)"
      by (simp add: s closest_scan_Cons)
    from IH [of m0 f0 n0 b0]
    show ?thesis
    proof
      assume a: "closest_scan qLn T rest (m0, f0, n0, b0) = (m0, f0, n0, b0) \<and>
            (\<forall>j<length rest. \<not> b64_lt (?D (rest ! j)) m0)"
      have "\<forall>j<length (s # rest). \<not> b64_lt (?D ((s # rest) ! j)) m0"
      proof (intro allI impI)
        fix j assume "j < length (s # rest)"
        then show "\<not> b64_lt (?D ((s # rest) ! j)) m0"
          using a False by (cases j) auto
      qed
      with a step show ?thesis by simp
    next
      assume "\<exists>k<length rest.
            closest_scan qLn T rest (m0, f0, n0, b0)
              = (?D (rest ! k), fst (rest ! k), snd (rest ! k), True) \<and>
            b64_lt (?D (rest ! k)) m0 \<and>
            (\<forall>j<length rest. \<not> b64_lt (?D (rest ! j)) (?D (rest ! k))) \<and>
            (\<forall>j<k. ?D (rest ! j) \<noteq> ?D (rest ! k))"
      then obtain k where k: "k < length rest"
        "closest_scan qLn T rest (m0, f0, n0, b0)
              = (?D (rest ! k), fst (rest ! k), snd (rest ! k), True)"
        "b64_lt (?D (rest ! k)) m0"
        "\<forall>j<length rest. \<not> b64_lt (?D (rest ! j)) (?D (rest ! k))"
        "\<forall>j<k. ?D (rest ! j) \<noteq> ?D (rest ! k)" by blast
      from False k(3) have ns: "\<not> b64_lt (?D s) (?D (rest ! k))"
        using b64_lt_trans [of "?D s" "?D (rest ! k)" m0] by blast
      from False k(3) have ne: "?D s \<noteq> ?D (rest ! k)" by auto
      have 1: "\<forall>j<length (s # rest). \<not> b64_lt (?D ((s # rest) ! j)) (?D ((s # rest) ! Suc k))"
      proof (intro allI impI)
        fix j assume "j < length (s # rest)"
        then show "\<not> b64_lt (?D ((s # rest) ! j)) (?D ((s # rest) ! Suc k))"
          using ns k(4) by (cases j) auto
      qed
      have 2: "\<forall>j<Suc k. ?D ((s # rest) ! j) \<noteq> ?D ((s # rest) ! Suc k)"
      proof (intro allI impI)
        fix j assume "j < Suc k"
        then show "?D ((s # rest) ! j) \<noteq> ?D ((s # rest) ! Suc k)"
          using ne k(5) by (cases j) auto
      qed
      from k(1,2,3) step 1 2 have "Suc k < length (s # rest) \<and>
            closest_scan qLn T (s # rest) (m0, f0, n0, b0)
              = (?D ((s # rest) ! Suc k), fst ((s # rest) ! Suc k), snd ((s # rest) ! Suc k), True) \<and>
            b64_lt (?D ((s # rest) ! Suc k)) m0 \<and>
            (\<forall>j<length (s # rest). \<not> b64_lt (?D ((s # rest) ! j)) (?D ((s # rest) ! Suc k))) \<and>
            (\<forall>j<Suc k. ?D ((s # rest) ! j) \<noteq> ?D ((s # rest) ! Suc k))"
        by simp
      then show ?thesis by blast
    qed
  qed
  then show ?case .
qed

lemma spot_noise_hit_outside:
  assumes "b64_lt (freq_value info) xMinView \<or> b64_gt (freq_value info) xMaxView"
  shows "spot_noise_hit qLn curve xMinView xMaxView info = None"
  using assms by (simp add: spot_noise_hit_def)

lemma spot_noise_hit_inside:
  assumes "\<not> b64_lt (freq_value info) xMinView" and "\<not> b64_gt (freq_value info) xMaxView"
  shows "((\<forall>j<length curve. \<not> b64_lt (log_distance qLn (fst (curve ! j)) (freq_value info)) B64_MAX) \<and>
          spot_noise_hit qLn curve xMinView xMaxView info = None)
       \<or> (\<exists>k<length curve.
            b64_lt (log_distance qLn (fst (curve ! k)) (freq_value info)) B64_MAX \<and>
            (\<forall>j<length curve. \<not> b64_lt (log_distance qLn (fst (curve ! j)) (freq_value info))
                                         (log_distance qLn (fst (curve ! k)) (freq_value info))) \<and>
            (\<forall>j<k. log_distance qLn (fst (curve ! j)) (freq_value info)
                      \<noteq> log_distance qLn (fst (curve ! k)) (freq_value info)) \<and>
            spot_noise_hit qLn curve xMinView xMaxView info =
              (if b64_lt (log_distance qLn (fst (curve ! k)) (freq_value info)) (qLn (Num 5))
               then Some (curve ! k) else None))"
proof -
  define t where "t = freq_value info"
  from closest_scan_char [of qLn t curve B64_MAX QNaN QNaN False]
  show ?thesis
  proof
    assume a: "closest_scan qLn t curve (B64_MAX, QNaN, QNaN, False) = (B64_MAX, QNaN, QNaN, False) \<and>
      (\<forall>j<length curve. \<not> b64_lt (log_distance qLn (fst (curve ! j)) t) B64_MAX)"
    then have "spot_noise_hit qLn curve xMinView xMaxView info = None"
      using assms by (simp add: spot_noise_hit_def t_def)
    with a show ?thesis unfolding t_def by blast
  next
    assume "\<exists>k<length curve.
        closest_scan qLn t curve (B64_MAX, QNaN, QNaN, False)
          = (log_distance qLn (fst (curve ! k)) t, fst (curve ! k), snd (curve ! k), True) \<and>
        b64_lt (log_distance qLn (fst (curve ! k)) t) B64_MAX \<and>
        (\<forall>j<length curve. \<not> b64_lt (log_distance qLn (fst (curve ! j)) t)
                                     (log_distance qLn (fst (curve ! k)) t)) \<and>
        (\<forall>j<k. log_distance qLn (fst (curve ! j)) t \<noteq> log_distance qLn (fst (curve ! k)) t)"
    then obtain k where k: "k < length curve"
      "closest_scan qLn t curve (B64_MAX, QNaN, QNaN, False)
          = (log_distance qLn (fst (curve ! k)) t, fst (curve ! k), snd (curve ! k), True)"
      "b64_lt (log_distance qLn (fst (curve ! k)) t) B64_MAX"
      "\<forall>j<length curve. \<not> b64_lt (log_distance qLn (fst (curve ! j)) t)
                                     (log_distance qLn (fst (curve ! k)) t)"
      "\<forall>j<k. log_distance qLn (fst (curve ! j)) t \<noteq> log_distance qLn (fst (curve ! k)) t"
      by blast
    have "spot_noise_hit qLn curve xMinView xMaxView info =
        (if b64_lt (log_distance qLn (fst (curve ! k)) t) (qLn (Num 5))
         then Some (curve ! k) else None)"
      using assms k(2) by (simp add: spot_noise_hit_def t_def [symmetric] log_distance_def)
    with k show ?thesis unfolding t_def by blast
  qed
qed

lemma log_distance_self: "qLn f = Num l \<Longrightarrow> log_distance qLn f f = Num 0"
  by (simp add: log_distance_def)

lemma log_table_values:
  "log_table (Num 5) = Num (7248263982714163 / 2 ^ 52)"
  "log_table (Num 10) = Num (2592480341699211 / 2 ^ 50)"
  "log_table (Num 50) = Num (8809092674755503 / 2 ^ 51)"
  "log_table (Num 100) = Num (2592480341699211 / 2 ^ 49)"
  "log_table (Num 200) = Num (5965375029419091 / 2 ^ 50)"
  "log_table (Num 1000) = Num (243045032034301 / 2 ^ 45)"
  "log_table (Num 10000) = Num (2592480341699211 / 2 ^ 48)"
  by (simp_all add: log_values_def)

declare log_table.simps [simp del]

lemma log_table_distances:
  "log_distance log_table (Num 50) (Num 100) = Num (1560828692041341 / 2 ^ 51)"
  "log_distance log_table (Num 200) (Num 100) = Num (780414346020669 / 2 ^ 50)"
  "log_distance log_table (Num 50) (Num 10) = Num (3624131991357081 / 2 ^ 51)"
  "log_distance log_table (Num 200) (Num 10) = Num (421611835964985 / 2 ^ 47)"
  "log_distance log_table (Num 100) (Num 1000) = Num (1296240170849605 / 2 ^ 49)"
  "log_distance log_table (Num 1000) (Num 1000) = Num 0"
  "log_distance log_table (Num 10000) (Num 1000) = Num (648120085424803 / 2 ^ 48)"
proof -
  show "log_distance log_table (Num 50) (Num 100) = Num (1560828692041341 / 2 ^ 51)"
    using b64_round_exact [of "- (1560828692041341 / 2 ^ 51)" "- 1560828692041341" "- 51"]
    by (simp add: log_distance_def log_table_values pow2_def)
  show "log_distance log_table (Num 200) (Num 100) = Num (780414346020669 / 2 ^ 50)"
    using b64_round_exact [of "780414346020669 / 2 ^ 50" 780414346020669 "- 50"]
    by (simp add: log_distance_def log_table_values pow2_def)
  show "log_distance log_table (Num 50) (Num 10) = Num (3624131991357081 / 2 ^ 51)"
    using b64_round_exact [of "3624131991357081 / 2 ^ 51" 3624131991357081 "- 51"]
    by (simp add: log_distance_def log_table_values pow2_def)
  show "log_distance log_table (Num 200) (Num 10) = Num (421611835964985 / 2 ^ 47)"
    using b64_round_exact [of "421611835964985 / 2 ^ 47" 421611835964985 "- 47"]
    by (simp add: log_distance_def log_table_values pow2_def)
  show "log_distance log_table (Num 100) (Num 1000) = Num (1296240170849605 / 2 ^ 49)"
    using b64_round_exact [of "- (1296240170849605 / 2 ^ 49)" "- 1296240170849605" "- 49"]
    by (simp add: log_distance_def log_table_values pow2_def)
  show "log_distance log_table (Num 1000) (Num 1000) = Num 0"
    by (simp add: log_distance_def log_table_values)
  show "log_distance log_table (Num 10000) (Num 1000) = Num (648120085424803 / 2 ^ 48)"
    using b64_round_exact [of "648120085424803 / 2 ^ 48" 648120085424803 "- 48"]
    by (simp add: log_distance_def log_table_values pow2_def)
qed

lemma spot_noise_hit_eq:
  "spot_noise_hit qLn c a b info =
     (let t = freq_value info in
      if b64_lt t a \<or> b64_gt t b then None
      else
        case closest_scan qLn t c (B64_MAX, QNaN, QNaN, False) of
          (m, f, n, fd) \<Rightarrow>
            if fd \<and> b64_lt (log_distance qLn f t) (qLn (Num 5)) then Some (f, n) else None)"
  by (simp add: spot_noise_hit_def log_distance_def Let_def)

lemma b64_lt_B64_MAX_small [simp]: "x \<le> 1024 \<Longrightarrow> b64_lt (Num x) B64_MAX"
  by (rule b64_lt_B64_MAX) simp

lemma ln_ties:
  "\<bar>ln 50 - ln 100\<bar> = \<bar>ln 200 - ln (100::real)\<bar>" "\<bar>ln 50 - ln 10\<bar> = ln (5::real)"
proof -
  have a: "ln (50::real) = ln 100 - ln 2" using ln_div [of 100 2] by simp
  have b: "ln (200::real) = ln 100 + ln 2" using ln_mult [of 100 2] by simp
  have c: "ln (50::real) = ln 10 + ln 5" using ln_mult [of 10 5] by simp
  show "\<bar>ln 50 - ln 100\<bar> = \<bar>ln 200 - ln (100::real)\<bar>" unfolding a b by simp
  show "\<bar>ln 50 - ln 10\<bar> = ln (5::real)" unfolding c by simp
qed

section \<open>Properties of the filters\<close>

text \<open>
  C7. For each of the three filters and every input: an even window is replaced by the
  next odd one before use (the filter gives for \<open>w\<close> what it gives for \<open>w + 1\<close>); a window
  that is, after this, below 3 (moving average, median) or below 5 (Savitzky-Golay), or
  empty data, gives the input back unchanged; and no window and no data make a filter
  fail: every call returns a vector, of the length of the input, without an access out
  of range.
\<close>

theorem filters_fall_back_to_identity:
  "(w mod 2 = 0 \<longrightarrow>
      movingAverage data w = movingAverage data (w + 1) \<and>
      medianFilter data w = medianFilter data (w + 1) \<and>
      savitzkyGolay data w p = savitzkyGolay data (w + 1) p) \<and>
   (oddified w < 3 \<or> data = [] \<longrightarrow>
      movingAverage data w = Some data \<and> medianFilter data w = Some data) \<and>
   (oddified w < 5 \<or> data = [] \<longrightarrow> savitzkyGolay data w p = Some data) \<and>
   (\<exists>r. movingAverage data w = Some r \<and> length r = length data) \<and>
   (\<exists>r. medianFilter data w = Some r \<and> length r = length data) \<and>
   (\<exists>r. savitzkyGolay data w p = Some r \<and> length r = length data)"
proof -
  have even: "w mod 2 = 0 \<Longrightarrow> (w + 1) mod 2 \<noteq> 0" by presburger
  have 1: "w mod 2 = 0 \<longrightarrow>
      movingAverage data w = movingAverage data (w + 1) \<and>
      medianFilter data w = medianFilter data (w + 1) \<and>
      savitzkyGolay data w p = savitzkyGolay data (w + 1) p"
    using even by (simp add: movingAverage_def medianFilter_def savitzkyGolay_def)
  have 2: "oddified w < 3 \<or> data = [] \<longrightarrow>
      movingAverage data w = Some data \<and> medianFilter data w = Some data"
    by (auto simp: movingAverage_def medianFilter_def oddified_def Let_def)
  have 3: "oddified w < 5 \<or> data = [] \<longrightarrow> savitzkyGolay data w p = Some data"
    by (auto simp: savitzkyGolay_def oddified_def Let_def)
  from 1 2 3 movingAverage_total [of data w] medianFilter_total [of data w]
    savitzkyGolay_total [of data w p]
  show ?thesis by blast
qed

theorem filters_fall_back_to_identity_witness:
  "movingAverage [Fin 1, Fin 2, Fin 4] 2 = movingAverage [Fin 1, Fin 2, Fin 4] 3 \<and>
   medianFilter [Fin 1, Fin 2, Fin 4] 2 = medianFilter [Fin 1, Fin 2, Fin 4] 3 \<and>
   savitzkyGolay [Fin 1, Fin 2, Fin 4] 2 3 = Some [Fin 1, Fin 2, Fin 4] \<and>
   movingAverage [Fin 1, Fin 2, Fin 4] 0 = Some [Fin 1, Fin 2, Fin 4] \<and>
   medianFilter [Fin 1, Fin 2, Fin 4] 0 = Some [Fin 1, Fin 2, Fin 4]"
proof -
  have e: "(2::int) + 1 = 3" by simp
  have "(2::int) mod 2 = 0" "oddified 2 < 5" "oddified 0 < 3"
    by (simp_all add: oddified_def)
  with filters_fall_back_to_identity [of 2 "[Fin 1, Fin 2, Fin 4]" 3, unfolded e]
    filters_fall_back_to_identity [of 0 "[Fin 1, Fin 2, Fin 4]" 3]
  show ?thesis by blast
qed

text \<open>
  C10. Data shorter than the requested window, made odd, comes back unchanged from
  \<open>savitzkyGolay\<close>, whatever kernel the window would have selected: so do twelve
  samples, in which the eleven-point kernel fits, under window 20.
\<close>

theorem savitzkyGolay_short_data:
  "int (length data) < oddified w \<Longrightarrow> savitzkyGolay data w p = Some data"
  by (simp add: savitzkyGolay_identity)

theorem savitzkyGolay_short_data_witness:
  "savitzkyGolay [Fin 1, Fin 2, Fin 3, Fin 4, Fin 5, Fin 6, Fin 7, Fin 8, Fin 9, Fin 10, Fin 11, Fin 12] 20 3
     = Some [Fin 1, Fin 2, Fin 3, Fin 4, Fin 5, Fin 6, Fin 7, Fin 8, Fin 9, Fin 10, Fin 11, Fin 12]"
  using savitzkyGolay_short_data
    [of "[Fin 1, Fin 2, Fin 3, Fin 4, Fin 5, Fin 6, Fin 7, Fin 8, Fin 9, Fin 10, Fin 11, Fin 12]" 20 3]
  by (simp add: oddified_def)

text \<open>
  C3, as stated, fails: for window 13 the kernel in use is the eleven-point one, the
  copied boundary is five samples wide, and the sixth sample (index 5, below
  \<open>13 div 2 = 6\<close>) is smoothed.
\<close>

theorem savitzkyGolay_boundary_counterexample:
  "savitzkyGolay
     [Fin 0, Fin 0, Fin 0, Fin 0, Fin 0, Fin 1, Fin 0, Fin 0, Fin 0, Fin 0, Fin 0, Fin 0, Fin 0] 13 3
   = Some
        [Fin 0, Fin 0, Fin 0, Fin 0, Fin 0, Fin (89 / 429), Fin (28 / 143), Fin (23 / 143),
         Fin 0, Fin 0, Fin 0, Fin 0, Fin 0] \<and>
   (5::int) < 13 div 2 \<and>
   [Fin 0, Fin 0, Fin 0, Fin 0, Fin 0, Fin (89 / 429), Fin (28 / 143), Fin (23 / 143), Fin 0, Fin 0, Fin 0, Fin 0, Fin 0] ! 5
     \<noteq> [Fin 0, Fin 0, Fin 0, Fin 0, Fin 0, Fin 1, Fin 0, Fin 0, Fin 0, Fin 0, Fin 0, Fin 0, Fin 0] ! 5"
  by code_simp

text \<open>
  C3, amended. For every window \<open>w\<close> and every input, the first and the last
  \<open>min (w div 2) 5\<close> output samples of \<open>savitzkyGolay\<close> equal the input samples at the same
  indices: the copied boundary is as wide as half the kernel in use, which is never
  wider than eleven points.
\<close>

theorem savitzkyGolay_boundary:
  "\<exists>r. savitzkyGolay data w p = Some r \<and> length r = length data \<and>
     (\<forall>k. int k < min (w div 2) 5 \<longrightarrow>
        r ! k = data ! k \<and> r ! (length data - 1 - k) = data ! (length data - 1 - k))"
proof (cases "oddified w < 5 \<or> p \<ge> oddified w \<or> int (length data) < oddified w")
  case True
  from savitzkyGolay_identity [OF this] show ?thesis by simp
next
  case False
  then have a: "5 \<le> oddified w" "p < oddified w" "oddified w \<le> int (length data)" by auto
  from savitzkyGolay_main [OF this] obtain r coeffs nrm w' where
    sel: "sg_select (oddified w) = Some (coeffs, nrm, w')" and r: "savitzkyGolay data w p = Some r"
    "length r = length data"
    "\<forall>k<length data. r ! k = (if int k < w' div 2 \<or> int (length data) - w' div 2 \<le> int k then data ! k
                                 else the (sg_point data coeffs nrm (w' div 2) (int k)))" by blast
  have wd: "w div 2 = oddified w div 2" unfolding oddified_def by presburger
  have h: "min (w div 2) 5 \<le> w' div 2" "w div 2 < int (length data)"
    using sg_select_cases [OF sel] a(3) unfolding wd by auto
  have "\<forall>k. int k < min (w div 2) 5 \<longrightarrow>
        r ! k = data ! k \<and> r ! (length data - 1 - k) = data ! (length data - 1 - k)"
  proof (intro allI impI)
    fix k assume k: "int k < min (w div 2) 5"
    then have kn: "k < length data" "int k < w' div 2" using h by auto
    then have 1: "r ! k = data ! k" using r(3) by simp
    have "length data - 1 - k < length data" "int (length data) - w' div 2 \<le> int (length data - 1 - k)"
      using kn by auto
    then have 2: "r ! (length data - 1 - k) = data ! (length data - 1 - k)" using r(3) by simp
    from 1 2 show "r ! k = data ! k \<and> r ! (length data - 1 - k) = data ! (length data - 1 - k)" ..
  qed
  with r show ?thesis by blast
qed

theorem savitzkyGolay_boundary_witness:
  "int 4 < min (13 div 2) 5 \<and>
   (\<exists>r. savitzkyGolay
          [Fin 3, Fin 1, Fin 4, Fin 1, Fin 5, Fin 9, Fin 2, Fin 6, Fin 5, Fin 3, Fin 5, Fin 8, Fin 9] 13 3 = Some r \<and>
        r ! 4 = Fin 5 \<and> r ! 8 = Fin 5)"
proof -
  have k: "int 4 < min (13 div 2) 5" by simp
  from savitzkyGolay_boundary
    [of "[Fin 3, Fin 1, Fin 4, Fin 1, Fin 5, Fin 9, Fin 2, Fin 6, Fin 5, Fin 3, Fin 5, Fin 8, Fin 9]" 13 3]
  obtain r where r: "savitzkyGolay
      [Fin 3, Fin 1, Fin 4, Fin 1, Fin 5, Fin 9, Fin 2, Fin 6, Fin 5, Fin 3, Fin 5, Fin 8, Fin 9] 13 3 = Some r"
    and b: "\<forall>k. int k < min (13 div 2) 5 \<longrightarrow>
      r ! k = [Fin 3, Fin 1, Fin 4, Fin 1, Fin 5, Fin 9, Fin 2, Fin 6, Fin 5, Fin 3, Fin 5, Fin 8, Fin 9] ! k \<and>
      r ! (length [Fin 3, Fin 1, Fin 4, Fin 1, Fin 5, Fin 9, Fin 2, Fin 6, Fin 5, Fin 3, Fin 5, Fin 8, Fin 9] - 1 - k)
      = [Fin 3, Fin 1, Fin 4, Fin 1, Fin 5, Fin 9, Fin 2, Fin 6, Fin 5, Fin 3, Fin 5, Fin 8, Fin 9] !
        (length [Fin 3, Fin 1, Fin 4, Fin 1, Fin 5, Fin 9, Fin 2, Fin 6, Fin 5, Fin 3, Fin 5, Fin 8, Fin 9] - 1 - k)"
    by blast
  have l: "length [Fin 3, Fin 1, Fin 4, Fin 1, Fin 5, Fin 9, Fin 2, Fin 6, Fin 5, Fin 3, Fin 5, Fin 8, Fin 9] - 1 - 4 = 8"
    by simp
  have v: "[Fin 3, Fin 1, Fin 4, Fin 1, Fin 5, Fin 9, Fin 2, Fin 6, Fin 5, Fin 3, Fin 5, Fin 8, Fin 9] ! 4 = Fin 5"
    "[Fin 3, Fin 1, Fin 4, Fin 1, Fin 5, Fin 9, Fin 2, Fin 6, Fin 5, Fin 3, Fin 5, Fin 8, Fin 9] ! 8 = Fin 5"
    by simp_all
  from b [rule_format, OF k] have "r ! 4 = Fin 5 \<and> r ! 8 = Fin 5"
    unfolding l v .
  with k r show ?thesis by blast
qed

text \<open>
  C4, as stated, fails twice. Eleven samples and window 21: the data is shorter than the
  requested window and comes back unchanged, sample 5 included, which is not the
  convolution. Five samples and the requested window 4, which is below 5: the window is
  made odd first, and the five-point kernel is applied.
\<close>

theorem savitzkyGolay_interior_counterexample:
  "savitzkyGolay [Fin 0, Fin 0, Fin 0, Fin 0, Fin 0, Fin 1, Fin 0, Fin 0, Fin 0, Fin 0, Fin 0] 21 3
     = Some [Fin 0, Fin 0, Fin 0, Fin 0, Fin 0, Fin 1, Fin 0, Fin 0, Fin 0, Fin 0, Fin 0] \<and>
   [Fin 0, Fin 0, Fin 0, Fin 0, Fin 0, Fin 1, Fin 0, Fin 0, Fin 0, Fin 0, Fin 0] ! 5
     \<noteq> kernel_11_convolution [Fin 0, Fin 0, Fin 0, Fin 0, Fin 0, Fin 1, Fin 0, Fin 0, Fin 0, Fin 0, Fin 0] 5 \<and>
   savitzkyGolay [Fin 0, Fin 0, Fin 1, Fin 0, Fin 0] 4 3
     = Some [Fin 0, Fin 0, Fin (17 / 35), Fin 0, Fin 0] \<and>
   [Fin 0, Fin 0, Fin (17 / 35), Fin 0, Fin 0] \<noteq> [Fin 0, Fin 0, Fin 1, Fin 0, Fin 0]"
  by code_simp

text \<open>
  C4, amended. If the window, made odd, is at least 9 and the data has at least that many
  samples (the polynomial order being below the window, as the default 3 is), every
  output sample at an index from 5 to \<open>n - 6\<close> is the convolution of the input with the
  eleven-point kernel divided by 429, under reflected indexing; and a window that is below
  5 once made odd gives the input back unchanged.
\<close>

theorem savitzkyGolay_interior:
  "(9 \<le> oddified w \<and> p < oddified w \<and> oddified w \<le> int (length data) \<and> 5 \<le> i \<and> i + 6 \<le> length data
      \<longrightarrow> (\<exists>r. savitzkyGolay data w p = Some r \<and> r ! i = kernel_11_convolution data i))
   \<and> (oddified w < 5 \<longrightarrow> savitzkyGolay data w p = Some data)"
proof (intro conjI impI)
  assume a: "9 \<le> oddified w \<and> p < oddified w \<and> oddified w \<le> int (length data) \<and> 5 \<le> i \<and> i + 6 \<le> length data"
  then have "5 \<le> oddified w" "p < oddified w" "oddified w \<le> int (length data)" by auto
  from savitzkyGolay_main [OF this] obtain r coeffs nrm w' where
    sel: "sg_select (oddified w) = Some (coeffs, nrm, w')" and r: "savitzkyGolay data w p = Some r"
    "\<forall>k<length data. r ! k = (if int k < w' div 2 \<or> int (length data) - w' div 2 \<le> int k then data ! k
                                 else the (sg_point data coeffs nrm (w' div 2) (int k)))" by blast
  from sg_select_cases [OF sel] a have c: "w' = 11" "coeffs = coeffs_11" "nrm = Fin 429" by auto
  have "r ! i = the (sg_point data coeffs_11 (Fin 429) 5 (int i))"
    using r(2) a unfolding c by auto
  also have "\<dots> = kernel_11_convolution data i" using sg_point_interior [of i data] a by simp
  finally show "\<exists>r. savitzkyGolay data w p = Some r \<and> r ! i = kernel_11_convolution data i"
    using r(1) by blast
next
  assume "oddified w < 5"
  then show "savitzkyGolay data w p = Some data" by (simp add: savitzkyGolay_identity)
qed

theorem savitzkyGolay_interior_witness:
  "(\<exists>r. savitzkyGolay
          [Fin 0, Fin 0, Fin 0, Fin 0, Fin 0, Fin 1, Fin 0, Fin 0, Fin 0, Fin 0, Fin 0, Fin 0, Fin 0] 12 3 = Some r \<and>
        r ! 6 = Fin (28 / 143)) \<and>
   savitzkyGolay [Fin 0, Fin 0, Fin 0, Fin 0, Fin 0, Fin 1, Fin 0, Fin 0, Fin 0, Fin 0, Fin 0, Fin 0, Fin 0] 3 3
     = Some [Fin 0, Fin 0, Fin 0, Fin 0, Fin 0, Fin 1, Fin 0, Fin 0, Fin 0, Fin 0, Fin 0, Fin 0, Fin 0]"
proof -
  have a: "9 \<le> oddified 12 \<and> (3::int) < oddified 12 \<and>
     oddified 12 \<le> int (length [Fin 0, Fin 0, Fin 0, Fin 0, Fin 0, Fin 1, Fin 0, Fin 0, Fin 0, Fin 0, Fin 0, Fin 0, Fin 0]) \<and>
     5 \<le> (6::nat) \<and>
     (6::nat) + 6 \<le> length [Fin 0, Fin 0, Fin 0, Fin 0, Fin 0, Fin 1, Fin 0, Fin 0, Fin 0, Fin 0, Fin 0, Fin 0, Fin 0]"
    by (simp add: oddified_def)
  have b: "oddified 3 < 5" by (simp add: oddified_def)
  have c: "kernel_11_convolution [Fin 0, Fin 0, Fin 0, Fin 0, Fin 0, Fin 1, Fin 0, Fin 0, Fin 0, Fin 0, Fin 0, Fin 0, Fin 0] 6
      = Fin (28 / 143)"
    by code_simp
  from a savitzkyGolay_interior
      [of 12 3 "[Fin 0, Fin 0, Fin 0, Fin 0, Fin 0, Fin 1, Fin 0, Fin 0, Fin 0, Fin 0, Fin 0, Fin 0, Fin 0]" 6]
  obtain r where r: "savitzkyGolay
      [Fin 0, Fin 0, Fin 0, Fin 0, Fin 0, Fin 1, Fin 0, Fin 0, Fin 0, Fin 0, Fin 0, Fin 0, Fin 0] 12 3 = Some r"
    "r ! 6 = kernel_11_convolution [Fin 0, Fin 0, Fin 0, Fin 0, Fin 0, Fin 1, Fin 0, Fin 0, Fin 0, Fin 0, Fin 0, Fin 0, Fin 0] 6"
    by blast
  from r(2) have "r ! 6 = Fin (28 / 143)" unfolding c .
  with r(1) have 1: "\<exists>r. savitzkyGolay
          [Fin 0, Fin 0, Fin 0, Fin 0, Fin 0, Fin 1, Fin 0, Fin 0, Fin 0, Fin 0, Fin 0, Fin 0, Fin 0] 12 3 = Some r \<and>
        r ! 6 = Fin (28 / 143)" by blast
  from b savitzkyGolay_interior
      [of 3 3 "[Fin 0, Fin 0, Fin 0, Fin 0, Fin 0, Fin 1, Fin 0, Fin 0, Fin 0, Fin 0, Fin 0, Fin 0, Fin 0]" 6]
  have 2: "savitzkyGolay [Fin 0, Fin 0, Fin 0, Fin 0, Fin 0, Fin 1, Fin 0, Fin 0, Fin 0, Fin 0, Fin 0, Fin 0, Fin 0] 3 3
     = Some [Fin 0, Fin 0, Fin 0, Fin 0, Fin 0, Fin 1, Fin 0, Fin 0, Fin 0, Fin 0, Fin 0, Fin 0, Fin 0]" by blast
  from 1 2 show ?thesis ..
qed

section \<open>Properties of spur removal\<close>

text \<open>
  C8. A dataset without reference data, or with fewer than three samples (the length
  \<^verbatim>\<open>N\<close> of the source reference), passes through spur removal: the call succeeds and the
  new \<^verbatim>\<open>phaseNoiseFiltered\<close> is the source measurement, the filtered one when filtering
  is on and the raw one when it is off.
\<close>

theorem spur_removal_pass_through:
  assumes "\<not> hasReferenceData data \<or>
           length (if m_filteringEnabled then referenceNoiseFiltered data else referenceNoise data) < 3"
  shows "\<exists>data'. applySpurRemoval_dataset m_filteringEnabled data = Some data' \<and>
           phaseNoiseFiltered data' =
             (if m_filteringEnabled then phaseNoiseFiltered data else phaseNoise data)"
  using assms by (auto simp: applySpurRemoval_dataset_def Let_def)

theorem spur_removal_pass_through_witness:
  "(\<exists>data'. applySpurRemoval_dataset False
       \<lparr>frequencyOffset = [Fin 1, Fin 2], phaseNoise = [Fin (-100), Fin (-90)],
        referenceNoise = [Fin 0, Fin 20], phaseNoiseFiltered = [], referenceNoiseFiltered = [],
        hasReferenceData = True, isVisible = True, graphMeasured = None\<rparr> = Some data' \<and>
     phaseNoiseFiltered data' = [Fin (-100), Fin (-90)]) \<and>
   (\<exists>data'. applySpurRemoval_dataset True
       \<lparr>frequencyOffset = [Fin 1, Fin 2, Fin 3], phaseNoise = [Fin (-100), Fin (-90), Fin (-60)],
        referenceNoise = [], phaseNoiseFiltered = [Fin (-95), Fin (-90), Fin (-75)],
        referenceNoiseFiltered = [], hasReferenceData = False, isVisible = True,
        graphMeasured = None\<rparr> = Some data' \<and>
     phaseNoiseFiltered data' = [Fin (-95), Fin (-90), Fin (-75)])"
  using spur_removal_pass_through [of
       "\<lparr>frequencyOffset = [Fin 1, Fin 2], phaseNoise = [Fin (-100), Fin (-90)],
        referenceNoise = [Fin 0, Fin 20], phaseNoiseFiltered = [], referenceNoiseFiltered = [],
        hasReferenceData = True, isVisible = True, graphMeasured = None\<rparr>" False]
    spur_removal_pass_through [of
       "\<lparr>frequencyOffset = [Fin 1, Fin 2, Fin 3], phaseNoise = [Fin (-100), Fin (-90), Fin (-60)],
        referenceNoise = [], phaseNoiseFiltered = [Fin (-95), Fin (-90), Fin (-75)],
        referenceNoiseFiltered = [], hasReferenceData = False, isVisible = True,
        graphMeasured = None\<rparr>" True]
  by simp

text \<open>
  C1, as stated, fails. The reference \<open>[0, 0, 20, 20]\<close> is a step: its rolling median
  follows it, so the reference is nowhere above its baseline and method 1 marks nothing;
  but method 2 sees a rising edge at index 2 that no falling edge follows, and fills the
  samples 2 and 3 of the measurement with sample 1.
\<close>

theorem spur_removal_no_op_counterexample:
  "rollingMedian [Fin 0, Fin 0, Fin 20, Fin 20] DEFAULT_SPUR_WINDOW_SIZE
     = Some [Fin 0, Fin 0, Fin 20, Fin 20] \<and>
   dle (dsub (Fin 0) (Fin 0)) SPUR_THRESHOLD \<and>
   dle (dsub (Fin 20) (Fin 20)) SPUR_THRESHOLD \<and>
   applySpurRemoval_dataset False
     \<lparr>frequencyOffset = [Fin 1, Fin 2, Fin 3, Fin 4], phaseNoise = [Fin 1, Fin 2, Fin 3, Fin 4],
      referenceNoise = [Fin 0, Fin 0, Fin 20, Fin 20], phaseNoiseFiltered = [],
      referenceNoiseFiltered = [], hasReferenceData = True, isVisible = True,
      graphMeasured = None\<rparr>
   = Some
     \<lparr>frequencyOffset = [Fin 1, Fin 2, Fin 3, Fin 4], phaseNoise = [Fin 1, Fin 2, Fin 3, Fin 4],
      referenceNoise = [Fin 0, Fin 0, Fin 20, Fin 20], phaseNoiseFiltered = [Fin 1, Fin 2, Fin 2, Fin 2],
      referenceNoiseFiltered = [Fin 0, Fin 0, Fin 20, Fin 20], hasReferenceData = True,
      isVisible = True, graphMeasured = None\<rparr> \<and>
   [Fin 1, Fin 2, Fin 2, Fin 2] \<noteq> [Fin 1, Fin 2, Fin 3, Fin 4]"
  by code_simp

text \<open>
  C1, amended. For a dataset with reference data and at least three samples: if the
  reference is nowhere more than the threshold above its baseline (the rolling median
  of window 21), method 1 marks no sample and returns the measurement unchanged; if
  moreover the reference has no rising edge (no \<open>i\<close> from 1 to \<open>n - 2\<close> with
  \<open>reference[i] - reference[i-1]\<close> above the threshold), method 2 changes nothing either
  and the new \<^verbatim>\<open>phaseNoiseFiltered\<close> is the source measurement.
\<close>

theorem spur_removal_no_op:
  assumes "hasReferenceData data" and "frequencyOffset data \<noteq> []"
    and "sourceRef = (if m_filteringEnabled then referenceNoiseFiltered data
                      else referenceNoise data)"
    and "sourceMeas = (if m_filteringEnabled then phaseNoiseFiltered data else phaseNoise data)"
    and "3 \<le> length sourceRef"
    and "rollingMedian sourceRef DEFAULT_SPUR_WINDOW_SIZE = Some baseline"
    and "\<forall>i<length sourceRef. dle (dsub (sourceRef ! i) (baseline ! i)) SPUR_THRESHOLD"
  shows "(\<exists>isSpur. mark_spurs sourceRef baseline [0..int (length sourceRef) - 1]
                      (replicate (length sourceRef) False) = Some isSpur \<and>
            pass1 (frequencyOffset data) isSpur (int (length sourceRef)) 0 sourceMeas
              = Some sourceMeas) \<and>
         ((\<forall>i. 1 \<le> i \<and> i + 1 < length sourceRef \<longrightarrow>
               \<not> dgt (dsub (sourceRef ! i) (sourceRef ! (i - 1))) SPUR_THRESHOLD) \<longrightarrow>
          (\<exists>data'. applySpurRemoval_dataset m_filteringEnabled data = Some data' \<and>
                    phaseNoiseFiltered data' = sourceMeas))"
proof (intro conjI impI)
  note u = removeSpurs_unchanged [OF assms(6,7)]
  from u(1) u(2) [of "frequencyOffset data" sourceMeas]
  show "\<exists>isSpur. mark_spurs sourceRef baseline [0..int (length sourceRef) - 1]
                      (replicate (length sourceRef) False) = Some isSpur \<and>
            pass1 (frequencyOffset data) isSpur (int (length sourceRef)) 0 sourceMeas
              = Some sourceMeas" by blast
  assume "\<forall>i. 1 \<le> i \<and> i + 1 < length sourceRef \<longrightarrow>
               \<not> dgt (dsub (sourceRef ! i) (sourceRef ! (i - 1))) SPUR_THRESHOLD"
  from u(3) [OF this, of "frequencyOffset data" sourceMeas]
  have r: "removeSpurs (frequencyOffset data) sourceRef sourceMeas = Some sourceMeas" .
  show "\<exists>data'. applySpurRemoval_dataset m_filteringEnabled data = Some data' \<and>
                    phaseNoiseFiltered data' = sourceMeas"
  proof (cases m_filteringEnabled)
    case True
    with assms(1-5) r show ?thesis
      by (simp add: applySpurRemoval_dataset_def Let_def)
  next
    case False
    with assms(1-5) r show ?thesis
      by (simp add: applySpurRemoval_dataset_def Let_def)
  qed
qed

theorem spur_removal_no_op_witness:
  "\<exists>data'. applySpurRemoval_dataset False
       \<lparr>frequencyOffset = [Fin 1, Fin 2, Fin 3], phaseNoise = [Fin (-100), Fin (-90), Fin (-80)],
        referenceNoise = [Fin 0, Fin 1, Fin 2], phaseNoiseFiltered = [], referenceNoiseFiltered = [],
        hasReferenceData = True, isVisible = True, graphMeasured = None\<rparr> = Some data' \<and>
     phaseNoiseFiltered data' = [Fin (-100), Fin (-90), Fin (-80)]"
proof -
  let ?d = "\<lparr>frequencyOffset = [Fin 1, Fin 2, Fin 3], phaseNoise = [Fin (-100), Fin (-90), Fin (-80)],
        referenceNoise = [Fin 0, Fin 1, Fin 2], phaseNoiseFiltered = [], referenceNoiseFiltered = [],
        hasReferenceData = True, isVisible = True, graphMeasured = None\<rparr>"
  have b: "rollingMedian [Fin 0, Fin 1, Fin 2] DEFAULT_SPUR_WINDOW_SIZE = Some [Fin 0, Fin 1, Fin 2]"
    by code_simp
  have le: "\<forall>i<length [Fin 0, Fin 1, Fin 2].
      dle (dsub ([Fin 0, Fin 1, Fin 2] ! i) ([Fin 0, Fin 1, Fin 2] ! i)) SPUR_THRESHOLD"
    by (simp add: All_less_Suc SPUR_THRESHOLD_def)
  have nr: "\<forall>i. 1 \<le> i \<and> i + 1 < length [Fin 0, Fin 1, Fin 2] \<longrightarrow>
      \<not> dgt (dsub ([Fin 0, Fin 1, Fin 2] ! i) ([Fin 0, Fin 1, Fin 2] ! (i - 1))) SPUR_THRESHOLD"
  proof (intro allI impI)
    fix i :: nat assume "1 \<le> i \<and> i + 1 < length [Fin 0, Fin 1, Fin 2]"
    then have "i = 1" by simp
    then show "\<not> dgt (dsub ([Fin 0, Fin 1, Fin 2] ! i) ([Fin 0, Fin 1, Fin 2] ! (i - 1))) SPUR_THRESHOLD"
      by (simp add: dgt_def SPUR_THRESHOLD_def)
  qed
  from spur_removal_no_op [of ?d "[Fin 0, Fin 1, Fin 2]" False "[Fin (-100), Fin (-90), Fin (-80)]"
      "[Fin 0, Fin 1, Fin 2]", OF _ _ _ _ _ b le] nr
  show ?thesis by simp
qed

text \<open>
  C2. The scenario with seven samples: the baseline is 0 everywhere, the marking loop
  marks exactly the samples 3 and 4, the segment runs from 3 to 4 (the scan from 3 stops
  at 5), its left anchor is index 2 and its right anchor index 5, the samples 3 and 4 are
  assigned the interpolation between the anchors \<open>(3, -100)\<close> and \<open>(6, -100)\<close> at their
  frequencies 4 and 5, which is \<open>-100\<close>, method 1 returns \<open>-100\<close> everywhere, and so does
  the whole of spur removal.
\<close>

theorem spur_scenario:
  "rollingMedian [Fin 0, Fin 0, Fin 0, Fin 20, Fin 20, Fin 0, Fin 0] DEFAULT_SPUR_WINDOW_SIZE
     = Some [Fin 0, Fin 0, Fin 0, Fin 0, Fin 0, Fin 0, Fin 0] \<and>
   mark_spurs [Fin 0, Fin 0, Fin 0, Fin 20, Fin 20, Fin 0, Fin 0]
     [Fin 0, Fin 0, Fin 0, Fin 0, Fin 0, Fin 0, Fin 0] [0..6] (replicate 7 False)
     = Some [False, False, False, True, True, False, False] \<and>
   find_left [False, False, False, True, True, False, False] (3 - 1) = Some 2 \<and>
   skip_spurs [False, False, False, True, True, False, False] 7 3 = Some 5 \<and>
   skip_spurs [False, False, False, True, True, False, False] 7 5 = Some 5 \<and>
   pass1_segment [Fin 1, Fin 2, Fin 3, Fin 4, Fin 5, Fin 6, Fin 7]
     [False, False, False, True, True, False, False] 7 3
     [Fin (-100), Fin (-100), Fin (-100), Fin (-60), Fin (-60), Fin (-100), Fin (-100)]
     = map_option (Pair 5)
         (assign_loop
            (pass1_value [Fin 1, Fin 2, Fin 3, Fin 4, Fin 5, Fin 6, Fin 7] 2 5
               (Fin 3) (Fin (-100)) (Fin 6) (Fin (-100)))
            [3..4]
            [Fin (-100), Fin (-100), Fin (-100), Fin (-60), Fin (-60), Fin (-100), Fin (-100)]) \<and>
   pass1_value [Fin 1, Fin 2, Fin 3, Fin 4, Fin 5, Fin 6, Fin 7] 2 5
     (Fin 3) (Fin (-100)) (Fin 6) (Fin (-100)) 3
     = Some (linearInterpolate (Fin 3) (Fin (-100)) (Fin 6) (Fin (-100)) (Fin 4)) \<and>
   pass1_value [Fin 1, Fin 2, Fin 3, Fin 4, Fin 5, Fin 6, Fin 7] 2 5
     (Fin 3) (Fin (-100)) (Fin 6) (Fin (-100)) 4
     = Some (linearInterpolate (Fin 3) (Fin (-100)) (Fin 6) (Fin (-100)) (Fin 5)) \<and>
   linearInterpolate (Fin 3) (Fin (-100)) (Fin 6) (Fin (-100)) (Fin 4) = Fin (-100) \<and>
   linearInterpolate (Fin 3) (Fin (-100)) (Fin 6) (Fin (-100)) (Fin 5) = Fin (-100) \<and>
   pass1 [Fin 1, Fin 2, Fin 3, Fin 4, Fin 5, Fin 6, Fin 7]
     [False, False, False, True, True, False, False] 7 0
     [Fin (-100), Fin (-100), Fin (-100), Fin (-60), Fin (-60), Fin (-100), Fin (-100)]
     = Some [Fin (-100), Fin (-100), Fin (-100), Fin (-100), Fin (-100), Fin (-100), Fin (-100)] \<and>
   removeSpurs [Fin 1, Fin 2, Fin 3, Fin 4, Fin 5, Fin 6, Fin 7]
     [Fin 0, Fin 0, Fin 0, Fin 20, Fin 20, Fin 0, Fin 0]
     [Fin (-100), Fin (-100), Fin (-100), Fin (-60), Fin (-60), Fin (-100), Fin (-100)]
     = Some [Fin (-100), Fin (-100), Fin (-100), Fin (-100), Fin (-100), Fin (-100), Fin (-100)]"
  by code_simp



section \<open>Properties of interpolation and spot noise\<close>




text \<open>
  C6, as the specification states it, does not hold of the scan, which compares the
  distances as computed: the rounded difference of the two logarithms that the library
  returns. Three instances, with the visible range \<open>[1, 10\<^sup>6]\<close> and the library's logarithms.
  A curve with the samples \<open>(1000, -100)\<close> and \<open>(1000, -120)\<close> has a sample at exactly
  1000 Hz with value \<open>-120\<close>, and \<^verbatim>\<open>1 kHz\<close> is mapped to \<open>(1000, -100)\<close>, the first of the two.
  On the curve \<open>(50, -1)\<close>, \<open>(200, -2)\<close> both samples are at the distance \<open>ln 2\<close> from
  100 Hz, and the first-encountered is \<open>(50, -1)\<close>; the computed distances are
  \<open>0.6931471805599458\<close> and \<open>0.6931471805599445\<close>, and \<^verbatim>\<open>100 Hz\<close> is mapped to
  \<open>(200, -2)\<close>. On the same curve the least distance from 10 Hz is \<open>ln 5\<close>, which is not
  less than \<open>ln 5\<close>; the computed distance is one unit in the last place below the
  computed \<open>ln 5\<close>, and \<^verbatim>\<open>10 Hz\<close> is mapped to \<open>(50, -1)\<close>.
\<close>

theorem spot_noise_extraction_counterexample:
  "calculateSpotNoise log_table
     [\<lparr>frequencyOffset = [Fin 1000, Fin 1000], phaseNoise = [Fin (- 100), Fin (- 120)],
       referenceNoise = [], phaseNoiseFiltered = [], referenceNoiseFiltered = [],
       hasReferenceData = False, isVisible = True,
       graphMeasured = Some [(Num 1000, Num (- 100)), (Num 1000, Num (- 120))]\<rparr>]
     (Num 1) (Num 1000000) ''1 kHz''
   = Some (Num 1000, Num (- 100)) \<and>
   \<bar>ln 50 - ln 100\<bar> = \<bar>ln 200 - ln (100::real)\<bar> \<and>
   calculateSpotNoise log_table
     [\<lparr>frequencyOffset = [Fin 50, Fin 200], phaseNoise = [Fin (- 1), Fin (- 2)],
       referenceNoise = [], phaseNoiseFiltered = [], referenceNoiseFiltered = [],
       hasReferenceData = False, isVisible = True,
       graphMeasured = Some [(Num 50, Num (- 1)), (Num 200, Num (- 2))]\<rparr>]
     (Num 1) (Num 1000000) ''100 Hz''
   = Some (Num 200, Num (- 2)) \<and>
   \<bar>ln 50 - ln 10\<bar> = ln (5::real) \<and>
   calculateSpotNoise log_table
     [\<lparr>frequencyOffset = [Fin 50, Fin 200], phaseNoise = [Fin (- 1), Fin (- 2)],
       referenceNoise = [], phaseNoiseFiltered = [], referenceNoiseFiltered = [],
       hasReferenceData = False, isVisible = True,
       graphMeasured = Some [(Num 50, Num (- 1)), (Num 200, Num (- 2))]\<rparr>]
     (Num 1) (Num 1000000) ''10 Hz''
   = Some (Num 50, Num (- 1))"
proof -
  let ?cd = "[(Num 1000, Num (- 100)), (Num 1000, Num (- 120))]"
  let ?dd = "\<lparr>frequencyOffset = [Fin 1000, Fin 1000], phaseNoise = [Fin (- 100), Fin (- 120)],
       referenceNoise = [], phaseNoiseFiltered = [], referenceNoiseFiltered = [],
       hasReferenceData = False, isVisible = True, graphMeasured = Some ?cd\<rparr>"
  let ?c = "[(Num 50, Num (- 1)), (Num 200, Num (- 2))]"
  let ?d = "\<lparr>frequencyOffset = [Fin 50, Fin 200], phaseNoise = [Fin (- 1), Fin (- 2)],
       referenceNoise = [], phaseNoiseFiltered = [], referenceNoiseFiltered = [],
       hasReferenceData = False, isVisible = True, graphMeasured = Some ?c\<rparr>"
  define i1 where "i1 = \<lparr>freq_value = Num 1000, displayName = ''1 kHz''\<rparr>"
  define i2 where "i2 = \<lparr>freq_value = Num 100, displayName = ''100 Hz''\<rparr>"
  define i3 where "i3 = \<lparr>freq_value = Num 10, displayName = ''10 Hz''\<rparr>"
  have m: "i1 \<in> set FREQ_POINT_INFOS" "i2 \<in> set FREQ_POINT_INFOS" "i3 \<in> set FREQ_POINT_INFOS"
    unfolding FREQ_POINT_INFOS_eq i1_def i2_def i3_def by simp_all
  have f0: "find (\<lambda>data. isVisible data \<and> graphMeasured data \<noteq> None
                            \<and> frequencyOffset data \<noteq> []) [?dd] = Some ?dd" by simp
  have f: "find (\<lambda>data. isVisible data \<and> graphMeasured data \<noteq> None
                            \<and> frequencyOffset data \<noteq> []) [?d] = Some ?d" by simp
  have g0: "graphMeasured ?dd = Some ?cd" and g: "graphMeasured ?d = Some ?c" by simp_all
  have h1: "spot_noise_hit log_table ?cd (Num 1) (Num 1000000) i1 = Some (Num 1000, Num (- 100))"
    by (simp add: spot_noise_hit_eq i1_def closest_scan_Cons log_table_distances
        log_table_values b64_gt_def Let_def)
  have h2: "spot_noise_hit log_table ?c (Num 1) (Num 1000000) i2 = Some (Num 200, Num (- 2))"
    by (simp add: spot_noise_hit_eq i2_def closest_scan_Cons log_table_distances
        log_table_values b64_gt_def Let_def)
  have h3: "spot_noise_hit log_table ?c (Num 1) (Num 1000000) i3 = Some (Num 50, Num (- 1))"
    by (simp add: spot_noise_hit_eq i3_def closest_scan_Cons log_table_distances
        log_table_values b64_gt_def Let_def)
  from calculateSpotNoise_label [OF f0 g0 m(1), of log_table "Num 1" "Num 1000000"] h1
  have 1: "calculateSpotNoise log_table [?dd] (Num 1) (Num 1000000) ''1 kHz''
      = Some (Num 1000, Num (- 100))" by (simp add: i1_def)
  from calculateSpotNoise_label [OF f g m(2), of log_table "Num 1" "Num 1000000"] h2
  have 2: "calculateSpotNoise log_table [?d] (Num 1) (Num 1000000) ''100 Hz''
      = Some (Num 200, Num (- 2))" by (simp add: i2_def)
  from calculateSpotNoise_label [OF f g m(3), of log_table "Num 1" "Num 1000000"] h3
  have 3: "calculateSpotNoise log_table [?d] (Num 1) (Num 1000000) ''10 Hz''
      = Some (Num 50, Num (- 1))" by (simp add: i3_def)
  from 1 2 3 ln_ties show ?thesis by blast
qed

text \<open>
  C6, amended. Let \<^verbatim>\<open>qLn\<close> be any function, and the distance of a sample from a decade
  frequency the computed one, \<open>log_distance\<close>. A decade frequency outside the visible
  range gets no entry. For one inside it, either no sample is at a distance below the
  largest finite double, and there is no entry; or there is a sample \<open>k\<close> at such a
  distance than which no sample is nearer, the first of its distance in the order of the
  scan, and the map has an entry under the frequency's label exactly if that distance is
  below \<^verbatim>\<open>qLn(5.0)\<close>: the entry is sample \<open>k\<close>, frequency and noise. In particular, if
  sample \<open>k\<close> is \<open>(1000, -120)\<close> and no sample before it is at the computed distance zero
  from 1000 Hz, the logarithm of 1000 being finite and that of 5 positive, the visible
  range \<open>[1, 10\<^sup>6]\<close> gives the entry \<open>(1000, -120)\<close> under the label \<^verbatim>\<open>1 kHz\<close>.
\<close>

theorem spot_noise_computed_distance:
  assumes "find (\<lambda>data. isVisible data \<and> graphMeasured data \<noteq> None
                            \<and> frequencyOffset data \<noteq> []) m_datasets = Some firstVisibleData"
    and "graphMeasured firstVisibleData = Some curve"
  shows "(\<forall>info\<in>set FREQ_POINT_INFOS.
            (b64_lt (freq_value info) xMinView \<or> b64_gt (freq_value info) xMaxView \<longrightarrow>
               calculateSpotNoise qLn m_datasets xMinView xMaxView (displayName info) = None) \<and>
            (\<not> b64_lt (freq_value info) xMinView \<and> \<not> b64_gt (freq_value info) xMaxView \<longrightarrow>
               ((\<forall>j<length curve.
                   \<not> b64_lt (log_distance qLn (fst (curve ! j)) (freq_value info)) B64_MAX) \<and>
                calculateSpotNoise qLn m_datasets xMinView xMaxView (displayName info) = None)
             \<or> (\<exists>k<length curve.
                   b64_lt (log_distance qLn (fst (curve ! k)) (freq_value info)) B64_MAX \<and>
                   (\<forall>j<length curve.
                      \<not> b64_lt (log_distance qLn (fst (curve ! j)) (freq_value info))
                               (log_distance qLn (fst (curve ! k)) (freq_value info))) \<and>
                   (\<forall>j<k. log_distance qLn (fst (curve ! j)) (freq_value info)
                             \<noteq> log_distance qLn (fst (curve ! k)) (freq_value info)) \<and>
                   calculateSpotNoise qLn m_datasets xMinView xMaxView (displayName info) =
                     (if b64_lt (log_distance qLn (fst (curve ! k)) (freq_value info))
                               (qLn (Num 5))
                      then Some (curve ! k) else None)))) \<and>
         (k < length curve \<and> curve ! k = (Num 1000, Num (- 120)) \<and>
          (\<forall>j<k. log_distance qLn (fst (curve ! j)) (Num 1000) \<noteq> Num 0) \<and>
          qLn (Num 1000) = Num l \<and> b64_lt (Num 0) (qLn (Num 5)) \<longrightarrow>
          calculateSpotNoise qLn m_datasets (Num 1) (Num 1000000) ''1 kHz''
            = Some (Num 1000, Num (- 120)))"
proof (intro conjI ballI impI)
  fix info
  assume info: "info \<in> set FREQ_POINT_INFOS"
    and "b64_lt (freq_value info) xMinView \<or> b64_gt (freq_value info) xMaxView"
  then show "calculateSpotNoise qLn m_datasets xMinView xMaxView (displayName info) = None"
    using calculateSpotNoise_label [OF assms info, of qLn xMinView xMaxView]
    by (simp add: spot_noise_hit_outside)
next
  fix info
  assume info: "info \<in> set FREQ_POINT_INFOS"
    and "\<not> b64_lt (freq_value info) xMinView \<and> \<not> b64_gt (freq_value info) xMaxView"
  then have r: "\<not> b64_lt (freq_value info) xMinView" "\<not> b64_gt (freq_value info) xMaxView"
    by simp_all
  from spot_noise_hit_inside [OF r, of curve qLn]
  show "((\<forall>j<length curve.
                   \<not> b64_lt (log_distance qLn (fst (curve ! j)) (freq_value info)) B64_MAX) \<and>
                calculateSpotNoise qLn m_datasets xMinView xMaxView (displayName info) = None)
             \<or> (\<exists>k<length curve.
                   b64_lt (log_distance qLn (fst (curve ! k)) (freq_value info)) B64_MAX \<and>
                   (\<forall>j<length curve.
                      \<not> b64_lt (log_distance qLn (fst (curve ! j)) (freq_value info))
                               (log_distance qLn (fst (curve ! k)) (freq_value info))) \<and>
                   (\<forall>j<k. log_distance qLn (fst (curve ! j)) (freq_value info)
                             \<noteq> log_distance qLn (fst (curve ! k)) (freq_value info)) \<and>
                   calculateSpotNoise qLn m_datasets xMinView xMaxView (displayName info) =
                     (if b64_lt (log_distance qLn (fst (curve ! k)) (freq_value info))
                               (qLn (Num 5))
                      then Some (curve ! k) else None))"
    unfolding calculateSpotNoise_label [OF assms info, of qLn xMinView xMaxView] .
next
  assume a: "k < length curve \<and> curve ! k = (Num 1000, Num (- 120)) \<and>
          (\<forall>j<k. log_distance qLn (fst (curve ! j)) (Num 1000) \<noteq> Num 0) \<and>
          qLn (Num 1000) = Num l \<and> b64_lt (Num 0) (qLn (Num 5))"
  define info where "info = \<lparr>freq_value = Num 1000, displayName = ''1 kHz''\<rparr>"
  let ?D = "\<lambda>j. log_distance qLn (fst (curve ! j)) (Num 1000)"
  have info: "info \<in> set FREQ_POINT_INFOS" unfolding FREQ_POINT_INFOS_eq info_def by simp
  have r: "\<not> b64_lt (freq_value info) (Num 1)" "\<not> b64_gt (freq_value info) (Num 1000000)"
    by (simp_all add: info_def b64_gt_def)
  from a have Dk: "?D k = Num 0" by (simp add: log_distance_self)
  then have cand: "b64_lt (?D k) B64_MAX" by simp
  from spot_noise_hit_inside [OF r, of curve qLn] a cand
  obtain k' where k': "k' < length curve" "b64_lt (?D k') B64_MAX"
    "\<forall>j<length curve. \<not> b64_lt (?D j) (?D k')" "\<forall>j<k'. ?D j \<noteq> ?D k'"
    "spot_noise_hit qLn curve (Num 1) (Num 1000000) info =
       (if b64_lt (?D k') (qLn (Num 5)) then Some (curve ! k') else None)"
    unfolding info_def by auto
  from k'(2) obtain x where x: "?D k' = Num x" "0 \<le> x"
    unfolding log_distance_def by (rule b64_abs_lt_cases)
  from k'(3) a have "\<not> b64_lt (?D k) (?D k')" by blast
  with x Dk have Dk': "?D k' = Num 0" by simp
  have "k' = k"
  proof (rule ccontr)
    assume "k' \<noteq> k"
    then consider "k' < k" | "k < k'" by linarith
    then show False
    proof cases
      case 1
      with a Dk' show False by blast
    next
      case 2
      with k'(4) Dk Dk' show False by auto
    qed
  qed
  with k'(5) Dk a have "spot_noise_hit qLn curve (Num 1) (Num 1000000) info
      = Some (Num 1000, Num (- 120))" by simp
  with calculateSpotNoise_label [OF assms info, of qLn "Num 1" "Num 1000000"]
  show "calculateSpotNoise qLn m_datasets (Num 1) (Num 1000000) ''1 kHz''
            = Some (Num 1000, Num (- 120))"
    by (simp add: info_def)
qed

theorem spot_noise_computed_distance_witness:
  "calculateSpotNoise log_table
     [\<lparr>frequencyOffset = [Fin 100, Fin 1000, Fin 10000],
       phaseNoise = [Fin (- 100), Fin (- 120), Fin (- 140)],
       referenceNoise = [], phaseNoiseFiltered = [], referenceNoiseFiltered = [],
       hasReferenceData = False, isVisible = True,
       graphMeasured = Some [(Num 100, Num (- 100)), (Num 1000, Num (- 120)),
                             (Num 10000, Num (- 140))]\<rparr>]
     (Num 1) (Num 1000000) ''1 kHz''
   = Some (Num 1000, Num (- 120)) \<and>
   calculateSpotNoise log_table
     [\<lparr>frequencyOffset = [Fin 100, Fin 1000, Fin 10000],
       phaseNoise = [Fin (- 100), Fin (- 120), Fin (- 140)],
       referenceNoise = [], phaseNoiseFiltered = [], referenceNoiseFiltered = [],
       hasReferenceData = False, isVisible = True,
       graphMeasured = Some [(Num 100, Num (- 100)), (Num 1000, Num (- 120)),
                             (Num 10000, Num (- 140))]\<rparr>]
     (Num 1) (Num 1000000) ''10 MHz''
   = None \<and>
   calculateSpotNoise log_table
     [\<lparr>frequencyOffset = [Fin 50, Fin 200], phaseNoise = [Fin (- 1), Fin (- 2)],
       referenceNoise = [], phaseNoiseFiltered = [], referenceNoiseFiltered = [],
       hasReferenceData = False, isVisible = True,
       graphMeasured = Some [(Num 50, Num (- 1)), (Num 200, Num (- 2))]\<rparr>]
     (Num 1) (Num 1000000) ''100 Hz''
   = Some (Num 200, Num (- 2))"
proof -
  let ?cd = "[(Num 100, Num (- 100)), (Num 1000, Num (- 120)), (Num 10000, Num (- 140))]"
  let ?dd = "\<lparr>frequencyOffset = [Fin 100, Fin 1000, Fin 10000],
       phaseNoise = [Fin (- 100), Fin (- 120), Fin (- 140)],
       referenceNoise = [], phaseNoiseFiltered = [], referenceNoiseFiltered = [],
       hasReferenceData = False, isVisible = True, graphMeasured = Some ?cd\<rparr>"
  have z1: "find (\<lambda>data. isVisible data \<and> graphMeasured data \<noteq> None
                            \<and> frequencyOffset data \<noteq> []) [?dd] = Some ?dd" by simp
  have z2: "graphMeasured ?dd = Some ?cd" by simp
  note t0 = spot_noise_computed_distance [OF z1 z2, of "Num 1" "Num 1000000" log_table 1
      "243045032034301 / 2 ^ 45"]
  have p: "1 < length ?cd \<and> ?cd ! 1 = (Num 1000, Num (- 120)) \<and>
          (\<forall>j<1. log_distance log_table (fst (?cd ! j)) (Num 1000) \<noteq> Num 0) \<and>
          log_table (Num 1000) = Num (243045032034301 / 2 ^ 45) \<and>
          b64_lt (Num 0) (log_table (Num 5))"
    by (simp add: log_table_distances log_table_values)
  from t0 p have a: "calculateSpotNoise log_table [?dd] (Num 1) (Num 1000000) ''1 kHz''
      = Some (Num 1000, Num (- 120))" by blast
  define i9 where "i9 = \<lparr>freq_value = Num 10000000, displayName = ''10 MHz''\<rparr>"
  have m9: "i9 \<in> set FREQ_POINT_INFOS" unfolding FREQ_POINT_INFOS_eq i9_def by simp
  have o9: "b64_lt (freq_value i9) (Num 1) \<or> b64_gt (freq_value i9) (Num 1000000)"
    by (simp add: i9_def b64_gt_def)
  from t0 [THEN conjunct1, rule_format, OF m9, THEN conjunct1, rule_format, OF o9]
  have b: "calculateSpotNoise log_table [?dd] (Num 1) (Num 1000000) ''10 MHz'' = None"
    by (simp add: i9_def)

  let ?c = "[(Num 50, Num (- 1)), (Num 200, Num (- 2))]"
  let ?d = "\<lparr>frequencyOffset = [Fin 50, Fin 200], phaseNoise = [Fin (- 1), Fin (- 2)],
       referenceNoise = [], phaseNoiseFiltered = [], referenceNoiseFiltered = [],
       hasReferenceData = False, isVisible = True, graphMeasured = Some ?c\<rparr>"
  have y1: "find (\<lambda>data. isVisible data \<and> graphMeasured data \<noteq> None
                            \<and> frequencyOffset data \<noteq> []) [?d] = Some ?d" by simp
  have y2: "graphMeasured ?d = Some ?c" by simp
  note t = spot_noise_computed_distance [OF y1 y2, of "Num 1" "Num 1000000" log_table]
  define i2 where "i2 = \<lparr>freq_value = Num 100, displayName = ''100 Hz''\<rparr>"
  have m2: "i2 \<in> set FREQ_POINT_INFOS" unfolding FREQ_POINT_INFOS_eq i2_def by simp
  have r2: "\<not> b64_lt (freq_value i2) (Num 1) \<and> \<not> b64_gt (freq_value i2) (Num 1000000)"
    by (simp add: i2_def b64_gt_def)
  let ?D = "\<lambda>j. log_distance log_table (fst (?c ! j)) (Num 100)"
  have D0: "?D 0 = Num (1560828692041341 / 2 ^ 51)" and D1: "?D 1 = Num (780414346020669 / 2 ^ 50)"
    by (simp_all add: log_table_distances)
  have lt: "b64_lt (?D 1) (?D 0)" unfolding D0 D1 by simp
  have c0: "b64_lt (?D 0) B64_MAX" unfolding D0 by simp
  from t [THEN conjunct1, rule_format, OF m2, THEN conjunct2, rule_format, OF r2]
  have "((\<forall>j<length ?c. \<not> b64_lt (?D j) B64_MAX) \<and>
          calculateSpotNoise log_table [?d] (Num 1) (Num 1000000) (displayName i2) = None)
       \<or> (\<exists>k<length ?c. b64_lt (?D k) B64_MAX \<and>
            (\<forall>j<length ?c. \<not> b64_lt (?D j) (?D k)) \<and> (\<forall>j<k. ?D j \<noteq> ?D k) \<and>
            calculateSpotNoise log_table [?d] (Num 1) (Num 1000000) (displayName i2) =
              (if b64_lt (?D k) (log_table (Num 5)) then Some (?c ! k) else None))"
    by (simp only: i2_def FrequencyPointInfo.simps)
  then have "\<exists>k<length ?c. (\<forall>j<length ?c. \<not> b64_lt (?D j) (?D k)) \<and>
            calculateSpotNoise log_table [?d] (Num 1) (Num 1000000) (displayName i2) =
              (if b64_lt (?D k) (log_table (Num 5)) then Some (?c ! k) else None)"
  proof
    assume "(\<forall>j<length ?c. \<not> b64_lt (?D j) B64_MAX) \<and>
          calculateSpotNoise log_table [?d] (Num 1) (Num 1000000) (displayName i2) = None"
    then have "\<forall>j<length ?c. \<not> b64_lt (?D j) B64_MAX" by (rule conjunct1)
    from this [rule_format, of 0] have "\<not> b64_lt (?D 0) B64_MAX" by simp
    with c0 show ?thesis by blast
  next
    assume "\<exists>k<length ?c. b64_lt (?D k) B64_MAX \<and>
            (\<forall>j<length ?c. \<not> b64_lt (?D j) (?D k)) \<and> (\<forall>j<k. ?D j \<noteq> ?D k) \<and>
            calculateSpotNoise log_table [?d] (Num 1) (Num 1000000) (displayName i2) =
              (if b64_lt (?D k) (log_table (Num 5)) then Some (?c ! k) else None)"
    then show ?thesis by blast
  qed
  then obtain k where k: "k < length ?c" "\<forall>j<length ?c. \<not> b64_lt (?D j) (?D k)"
    "calculateSpotNoise log_table [?d] (Num 1) (Num 1000000) (displayName i2) =
       (if b64_lt (?D k) (log_table (Num 5)) then Some (?c ! k) else None)"
    by blast
  have "k = 1"
  proof (rule ccontr)
    assume "k \<noteq> 1"
    with k(1) have "k = 0" by simp
    with k(2) [rule_format, of 1] have "\<not> b64_lt (?D 1) (?D 0)" by simp
    with lt show False by blast
  qed
  with k(3) have c: "calculateSpotNoise log_table [?d] (Num 1) (Num 1000000) ''100 Hz''
      = Some (Num 200, Num (- 2))"
    by (simp add: i2_def log_table_distances log_table_values)
  from a b c show ?thesis by blast
qed

end
